theory Spec2Isabelle
  imports Main "HOL-Library.Word"
begin

section \<open>Bytes, constants and the platform\<close>

text \<open>
  The program is \<^verbatim>\<open>src/compression.cpp\<close>. A C++ \<^verbatim>\<open>char\<close> is a byte, a
  \<^verbatim>\<open>std::vector<char>\<close> a list of bytes, a file its content.
\<close>

type_synonym byte = "8 word"
type_synonym bytes = "byte list"

definition CHUNK_SIZE :: nat where
  "CHUNK_SIZE = 16384"

text \<open>The four characters \<^verbatim>\<open>"CMP1"\<close> written by \<^verbatim>\<open>outFile.write("CMP1", 4)\<close>.\<close>

definition magic :: bytes where
  "magic = [0x43, 0x4D, 0x50, 0x31]"

text \<open>
  What the source takes from outside the repository is a parameter of the model:
  \<^item> zlib. \<open>deflate\<close> is the zlib stream that \<^verbatim>\<open>compress\<close> produces for a source
    buffer, \<open>inflate\<close> the content of a zlib stream (\<open>None\<close> for corrupt or
    incomplete data);
  \<^item> \<^verbatim>\<open>uLong\<close>, zlib's \<^verbatim>\<open>unsigned long\<close>: 4 bytes on 32-bit and LLP64 platforms,
    8 bytes on LP64;
  \<^item> \<^verbatim>\<open>std::vector<char>::max_size()\<close>: the constructor \<^verbatim>\<open>std::vector<char> v(n)\<close>
    throws \<^verbatim>\<open>std::length_error\<close> when \<open>n\<close> exceeds it. In libstdc++, libc++ and the
    MSVC library it is \<^verbatim>\<open>PTRDIFF_MAX\<close>, so \<open>2 ^ 31 - 1\<close> or \<open>2 ^ 63 - 1\<close> with the width of
    \<^verbatim>\<open>ptrdiff_t\<close>. The vector of \<open>CHUNK_SIZE\<close> bytes of the reading loop of
    \<^verbatim>\<open>compressFile\<close> is below it on every platform (\<open>fixed_sizes_fit\<close> below); the
    vectors whose size is an argument or is read from a file are checked against it.
  Exhaustion of memory or of threads (\<^verbatim>\<open>std::bad_alloc\<close>, \<^verbatim>\<open>std::system_error\<close>,
  \<^verbatim>\<open>Z_MEM_ERROR\<close>) and failing writes are outside the model.
\<close>

datatype ulong_width = ULong32 | ULong64

datatype ptrdiff_width = Ptrdiff32 | Ptrdiff64

fun PTRDIFF_MAX :: "ptrdiff_width \<Rightarrow> nat" where
  "PTRDIFF_MAX Ptrdiff32 = 2147483647"
| "PTRDIFF_MAX Ptrdiff64 = 9223372036854775807"

fun sizeof :: "ulong_width \<Rightarrow> nat" where
  "sizeof ULong32 = 4"
| "sizeof ULong64 = 8"

record platform =
  deflate :: "bytes \<Rightarrow> bytes"
  inflate :: "bytes \<Rightarrow> bytes option"
  uLong :: ulong_width
  ptrdiff_t :: ptrdiff_width

definition sizeof_uLong :: "platform \<Rightarrow> nat" where
  "sizeof_uLong P = sizeof (uLong P)"

definition max_size :: "platform \<Rightarrow> nat" where
  "max_size P = PTRDIFF_MAX (ptrdiff_t P)"

subsection \<open>zlib's utility functions\<close>

text \<open>
  \<^verbatim>\<open>int compress(Bytef *dest, uLongf *destLen, const Bytef *source, uLong sourceLen)\<close>
  and \<^verbatim>\<open>uncompress\<close>, as \<^verbatim>\<open>zlib.h\<close> documents them: on entry \<^verbatim>\<open>destLen\<close> is the size
  of the destination buffer, on \<^verbatim>\<open>Z_OK\<close> it is the size of the result; \<^verbatim>\<open>Z_BUF_ERROR\<close>
  when the buffer is too small, \<^verbatim>\<open>Z_DATA_ERROR\<close> when the input of \<^verbatim>\<open>uncompress\<close> is
  corrupt. \<open>Inr out\<close> is \<^verbatim>\<open>Z_OK\<close> with \<open>out\<close> the first \<^verbatim>\<open>destLen\<close> bytes of the
  destination.

  Given a destination of no bytes, \<^verbatim>\<open>uncompress\<close> inflates into a buffer of one byte
  of its own: it returns \<^verbatim>\<open>Z_OK\<close>, with \<^verbatim>\<open>destLen\<close> still 0, when the content has at
  most one byte, and \<^verbatim>\<open>Z_DATA_ERROR\<close> when it has more (\<^verbatim>\<open>uncompr.c\<close> of zlib 1.2.9 and
  later).
\<close>

datatype zerr = Z_BUF_ERROR | Z_DATA_ERROR

definition zcompress :: "platform \<Rightarrow> nat \<Rightarrow> bytes \<Rightarrow> zerr + bytes" where
  "zcompress P destLen source =
     (if length (deflate P source) \<le> destLen then Inr (deflate P source)
      else Inl Z_BUF_ERROR)"

definition zuncompress :: "platform \<Rightarrow> nat \<Rightarrow> bytes \<Rightarrow> zerr + bytes" where
  "zuncompress P destLen source =
     (case inflate P source of
        None \<Rightarrow> Inl Z_DATA_ERROR
      | Some raw \<Rightarrow>
          if destLen = 0 then (if length raw \<le> 1 then Inr [] else Inl Z_DATA_ERROR)
          else if length raw \<le> destLen then Inr raw
          else Inl Z_BUF_ERROR)"

section \<open>Errors and outcomes\<close>

text \<open>
  One constructor for each exception the source throws, named after its message:
  \<^item> \<open>OpenInputError\<close>: "File error: Unable to open input file";
  \<^item> \<open>OpenOutputError\<close>: "File error: Unable to open output file";
  \<^item> \<open>InvalidFormat\<close>: "File error: Invalid compressed file format.";
  \<^item> \<open>CorruptedFile\<close>: "File error: Corrupted compressed file.";
  \<^item> \<open>CompressionError\<close>: "Compression error: Data could not be compressed.";
  \<^item> \<open>DecompressionError\<close>: "Decompression error: Data could not be decompressed.";
  \<^item> \<open>LengthError\<close>: the \<^verbatim>\<open>std::length_error\<close> of a vector constructor.
\<close>

datatype error =
    OpenInputError
  | OpenOutputError
  | InvalidFormat
  | CorruptedFile
  | CompressionError
  | DecompressionError
  | LengthError

text \<open>
  How a call of \<^verbatim>\<open>compressFile\<close> or \<^verbatim>\<open>decompressFile\<close> ends:
  \<^item> \<open>Returned\<close>: it returns;
  \<^item> \<open>Raised e\<close>: the calling thread throws \<open>e\<close>, which leaves the function;
  \<^item> \<open>Rethrown i e\<close>: \<^verbatim>\<open>std::rethrow_exception(threadException)\<close>, where the pointer
    holds the exception object that worker \<open>i\<close> (in the order of \<^verbatim>\<open>threads\<close>) threw;
  \<^item> \<open>Terminated\<close>: \<^verbatim>\<open>std::terminate()\<close>. An exception that leaves the function while
    \<^verbatim>\<open>threads\<close> holds a joinable \<^verbatim>\<open>std::thread\<close> destroys that thread during
    unwinding, and the destructor of a joinable thread calls \<^verbatim>\<open>std::terminate()\<close>;
  \<^item> \<open>Undefined\<close>: a variable is used that was never set.
\<close>

datatype outcome = Returned | Raised error | Rethrown nat error | Terminated | Undefined

text \<open>The spec's error classes, read off the messages.\<close>

fun is_FormatError :: "outcome \<Rightarrow> bool" where
  "is_FormatError (Raised InvalidFormat) = True"
| "is_FormatError (Raised CorruptedFile) = True"
| "is_FormatError _ = False"

section \<open>The block codec\<close>

text \<open>
  \<^verbatim>\<open>compressBlock\<close>: empty input gives an empty vector; otherwise the destination is a
  vector of \<^verbatim>\<open>data.size() * 2\<close> bytes, whose constructor throws above \<^verbatim>\<open>max_size()\<close>
  (a vector has at most \<^verbatim>\<open>max_size()\<close> elements, so the product does not wrap), and
  any result of \<^verbatim>\<open>compress\<close> but \<^verbatim>\<open>Z_OK\<close> throws.
\<close>

definition compressBlock :: "platform \<Rightarrow> bytes \<Rightarrow> error + bytes" where
  "compressBlock P data =
     (if data = [] then Inr []
      else if max_size P < length data * 2 then Inl LengthError
      else (case zcompress P (length data * 2) data of
              Inl _ \<Rightarrow> Inl CompressionError
            | Inr compressedData \<Rightarrow> Inr compressedData))"

text \<open>
  \<^verbatim>\<open>decompressBlock\<close>: an empty payload gives an empty vector; otherwise the
  destination is a vector of \<^verbatim>\<open>originalSize\<close> bytes, whose constructor throws above
  \<^verbatim>\<open>max_size()\<close>, and it is resized to the size \<^verbatim>\<open>uncompress\<close> reports.
\<close>

definition decompressBlock :: "platform \<Rightarrow> bytes \<Rightarrow> nat \<Rightarrow> error + bytes" where
  "decompressBlock P compressedData originalSize =
     (if compressedData = [] then Inr []
      else if max_size P < originalSize then Inl LengthError
      else (case zuncompress P originalSize compressedData of
              Inl _ \<Rightarrow> Inl DecompressionError
            | Inr decompressedData \<Rightarrow> Inr decompressedData))"

section \<open>Input streams\<close>

text \<open>
  A \<^verbatim>\<open>std::ifstream\<close> opened in binary mode: the bytes not yet extracted, the
  \<^verbatim>\<open>eofbit\<close> and \<^verbatim>\<open>failbit\<close> of its state and the count of the last unformatted
  read (\<^verbatim>\<open>gcount()\<close>).
\<close>

record istream =
  pending :: bytes
  eofbit :: bool
  failbit :: bool
  gcount :: nat

definition ifstream_open :: "bytes \<Rightarrow> istream" where
  "ifstream_open content =
     \<lparr>pending = content, eofbit = False, failbit = False, gcount = 0\<rparr>"

text \<open>
  \<^verbatim>\<open>read(s, n)\<close>: on a stream that is not good the sentry fails, nothing is extracted
  and \<^verbatim>\<open>failbit\<close> is set; otherwise up to \<open>n\<close> bytes are extracted, and both
  \<^verbatim>\<open>eofbit\<close> and \<^verbatim>\<open>failbit\<close> are set when fewer than \<open>n\<close> were there. The result is
  the bytes extracted and the stream afterwards.
\<close>

definition istream_read :: "nat \<Rightarrow> istream \<Rightarrow> bytes \<times> istream" where
  "istream_read n s =
     (if eofbit s \<or> failbit s then ([], s\<lparr>failbit := True, gcount := 0\<rparr>)
      else (take n (pending s),
            s\<lparr>pending := drop n (pending s),
              eofbit := length (pending s) < n,
              failbit := length (pending s) < n,
              gcount := min n (length (pending s))\<rparr>))"

section \<open>The length field\<close>

text \<open>
  \<^verbatim>\<open>outFile.write(reinterpret_cast<const char*>(&chunkSize), sizeof(chunkSize))\<close> writes
  the object representation of a \<^verbatim>\<open>uLong\<close>, and the read in \<^verbatim>\<open>decompressFile\<close> fills
  one: \<open>w\<close> bytes, least significant first (the byte order of x86 and of ARM as
  commonly run).
\<close>

fun ulong_bytes :: "nat \<Rightarrow> nat \<Rightarrow> bytes" where
  "ulong_bytes 0 n = []"
| "ulong_bytes (Suc w) n = of_nat (n mod 256) # ulong_bytes w (n div 256)"

fun bytes_ulong :: "bytes \<Rightarrow> nat" where
  "bytes_ulong [] = 0"
| "bytes_ulong (b # bs) = unat b + 256 * bytes_ulong bs"

section \<open>Workers and the shared state\<close>

text \<open>
  The state the worker threads share: the vector \<^verbatim>\<open>compressedChunks\<close> (or
  \<^verbatim>\<open>decompressedChunks\<close>) and \<^verbatim>\<open>threadException\<close>. An \<^verbatim>\<open>exception_ptr\<close> that is
  not null is \<open>Some (i, e)\<close>: the exception object \<open>e\<close> thrown in worker \<open>i\<close>.
\<close>

record shared =
  collected :: "bytes list"
  threadException :: "(nat \<times> error) option"

definition shared_init :: shared where
  "shared_init = \<lparr>collected = [], threadException = None\<rparr>"

text \<open>
  A worker computes on its own copy of the buffer and then does exactly one thing to the
  shared state, under a lock: \<^verbatim>\<open>push_back\<close> of its result, or the assignment
  \<^verbatim>\<open>threadException = std::current_exception()\<close>. \<open>complete f threads st i\<close> is that
  step of worker \<open>i\<close>, whose transform is \<open>f\<close> and whose captured buffer is
  \<open>threads ! i\<close>.
\<close>

definition complete ::
  "(bytes \<Rightarrow> error + bytes) \<Rightarrow> bytes list \<Rightarrow> shared \<Rightarrow> nat \<Rightarrow> shared" where
  "complete f threads st i =
     (if i < length threads then
        (case f (threads ! i) of
           Inr r \<Rightarrow> st\<lparr>collected := collected st @ [r]\<rparr>
         | Inl e \<Rightarrow> st\<lparr>threadException := Some (i, e)\<rparr>)
      else st)"

text \<open>
  The join loop returns when every worker has finished. The shared state then depends
  only on the order in which the workers took their locks: the schedule, a list of the
  worker indices. Every order is possible, since a worker that was started first may be
  delayed behind all the others.
\<close>

definition join_all ::
  "(bytes \<Rightarrow> error + bytes) \<Rightarrow> bytes list \<Rightarrow> nat list \<Rightarrow> shared" where
  "join_all f threads sched = foldl (complete f threads) shared_init sched"

text \<open>A schedule of \<open>n\<close> workers names each of them once.\<close>

definition schedule :: "nat \<Rightarrow> nat list \<Rightarrow> bool" where
  "schedule n sched = (distinct sched \<and> set sched = {0..<n})"

section \<open>compressFile\<close>

text \<open>
  The reading loop of \<^verbatim>\<open>compressFile\<close>. \<open>threads\<close> holds the buffer captured by each
  thread started so far.
\<close>

function read_chunks :: "istream \<Rightarrow> bytes list \<Rightarrow> bytes list" where
  "read_chunks inFile threads =
     (if eofbit inFile then threads
      else (case istream_read CHUNK_SIZE inFile of
              (buffer, inFile') \<Rightarrow>
                if gcount inFile' = 0 then threads
                else read_chunks inFile' (threads @ [buffer])))"
  by pat_completeness auto
termination
  by (relation "measure (\<lambda>(inFile, threads). length (pending inFile))")
     (auto simp: istream_read_def CHUNK_SIZE_def split: if_splits)

text \<open>
  One record of the output: \<^verbatim>\<open>uLong chunkSize = chunk.size()\<close>, its bytes, then
  \<^verbatim>\<open>chunkSize\<close> bytes of the chunk.
\<close>

definition write_record :: "platform \<Rightarrow> bytes \<Rightarrow> bytes" where
  "write_record P chunk =
     (let chunkSize = length chunk mod 256 ^ sizeof_uLong P
      in ulong_bytes (sizeof_uLong P) chunkSize @ take chunkSize chunk)"

text \<open>
  \<open>compressFile P inputFile outputOpens sched\<close>: \<open>inputFile\<close> is the content of the
  input file (\<open>None\<close> when it cannot be opened), \<open>outputOpens\<close> says whether the output
  file can be opened, \<open>sched\<close> is the order in which the workers complete (the call is
  an execution of the program when \<open>sched\<close> is a schedule of the threads started). The
  result is how the call ends and what it has written to \<^verbatim>\<open>outFile\<close>.
\<close>

definition compressFile ::
  "platform \<Rightarrow> bytes option \<Rightarrow> bool \<Rightarrow> nat list \<Rightarrow> outcome \<times> bytes" where
  "compressFile P inputFile outputOpens sched =
     (case inputFile of
        None \<Rightarrow> (Raised OpenInputError, [])
      | Some content \<Rightarrow>
          if \<not> outputOpens then (Raised OpenOutputError, [])
          else
            let threads = read_chunks (ifstream_open content) [];
                st = join_all (compressBlock P) threads sched
            in (case threadException st of
                  Some (i, e) \<Rightarrow> (Rethrown i e, magic)
                | None \<Rightarrow>
                    (Returned, magic @ concat (map (write_record P) (collected st)))))"

section \<open>decompressFile\<close>

text \<open>
  An exception thrown by the calling thread inside the reading loop: it leaves the
  function only when no thread has been started yet.
\<close>

definition throw_in_loop :: "bytes list \<Rightarrow> error \<Rightarrow> outcome" where
  "throw_in_loop threads e = (if threads = [] then Raised e else Terminated)"

text \<open>
  The reading loop of \<^verbatim>\<open>decompressFile\<close>. On a stream with \<^verbatim>\<open>failbit\<close> but not
  \<^verbatim>\<open>eofbit\<close> the read of the length field extracts nothing and the loop goes on with
  \<^verbatim>\<open>chunkSize\<close> unset (no stream of this program is in that state, see
  \<open>decompressFile_defined\<close> below).
\<close>

function read_records ::
  "platform \<Rightarrow> istream \<Rightarrow> bytes list \<Rightarrow> outcome + bytes list" where
  "read_records P inFile threads =
     (if eofbit inFile then Inr threads
      else (case istream_read (sizeof_uLong P) inFile of
              (sizeBytes, inFile1) \<Rightarrow>
                if eofbit inFile1 then Inr threads
                else if failbit inFile1 then Inl Undefined
                else
                  let chunkSize = bytes_ulong sizeBytes in
                  if max_size P < chunkSize then Inl (throw_in_loop threads LengthError)
                  else (case istream_read chunkSize inFile1 of
                          (compressedBuffer, inFile2) \<Rightarrow>
                            if gcount inFile2 \<noteq> chunkSize
                            then Inl (throw_in_loop threads CorruptedFile)
                            else read_records P inFile2 (threads @ [compressedBuffer]))))"
  by pat_completeness auto
termination
  apply (relation "measure (\<lambda>(P, inFile, threads). length (pending inFile))")
   apply simp
  apply (case_tac "uLong P")
   apply (auto simp: istream_read_def sizeof_uLong_def split: if_splits)
  done

text \<open>
  \<open>decompressFile P header0 inputFile outputOpens sched\<close>. \<open>header0\<close> is what the
  array \<^verbatim>\<open>char header[4]\<close> holds before the read (it is not initialised): a read of
  fewer than 4 bytes leaves the rest of it.
\<close>

definition decompressFile ::
  "platform \<Rightarrow> bytes \<Rightarrow> bytes option \<Rightarrow> bool \<Rightarrow> nat list \<Rightarrow> outcome \<times> bytes" where
  "decompressFile P header0 inputFile outputOpens sched =
     (case inputFile of
        None \<Rightarrow> (Raised OpenInputError, [])
      | Some content \<Rightarrow>
          if \<not> outputOpens then (Raised OpenOutputError, [])
          else
            (case istream_read 4 (ifstream_open content) of
               (got, inFile) \<Rightarrow>
                 if got @ drop (length got) (take 4 header0) \<noteq> magic
                 then (Raised InvalidFormat, [])
                 else
                   (case read_records P inFile [] of
                      Inl thrown \<Rightarrow> (thrown, [])
                    | Inr threads \<Rightarrow>
                        let st = join_all (\<lambda>compressedBuffer.
                                   decompressBlock P compressedBuffer CHUNK_SIZE) threads sched
                        in (case threadException st of
                              Some (i, e) \<Rightarrow> (Rethrown i e, [])
                            | None \<Rightarrow> (Returned, concat (collected st))))))"

section \<open>A reference platform\<close>

text \<open>
  An instance of the parameters, for evaluating the program on concrete files: an LP64
  platform whose codec writes zlib streams of stored blocks (RFC 1950 and RFC 1951: the
  header \<open>78 01\<close>, blocks of at most 65535 literal bytes, each behind the byte of its
  final flag and its length and the complement of its length in 16 bits, and the
  Adler-32 checksum of the data, most significant byte first) and reads such streams.
\<close>

definition adler32 :: "bytes \<Rightarrow> nat" where
  "adler32 data =
     (case foldl (\<lambda>(a, b) x. ((a + unat x) mod 65521, (b + (a + unat x) mod 65521) mod 65521))
             (1, 0) data of
        (a, b) \<Rightarrow> b * 65536 + a)"

definition stored_block :: "bool \<Rightarrow> bytes \<Rightarrow> bytes" where
  "stored_block final data =
     (if final then 1 else 0) # ulong_bytes 2 (length data)
       @ ulong_bytes 2 (65535 - length data) @ data"

function stored_blocks :: "bytes \<Rightarrow> bytes" where
  "stored_blocks data =
     (if length data \<le> 65535 then stored_block True data
      else stored_block False (take 65535 data) @ stored_blocks (drop 65535 data))"
  by pat_completeness auto
termination
  by (relation "measure length") auto

definition stored_deflate :: "bytes \<Rightarrow> bytes" where
  "stored_deflate data =
     [0x78, 0x01] @ stored_blocks data @ rev (ulong_bytes 4 (adler32 data))"

function inflate_blocks :: "bytes \<Rightarrow> (bytes \<times> bytes) option" where
  "inflate_blocks bs =
     (if length bs < 5 then None
      else
        let len = bytes_ulong (take 2 (drop 1 bs));
            nlen = bytes_ulong (take 2 (drop 3 bs));
            rest = drop 5 bs
        in if len + nlen \<noteq> 65535 \<or> length rest < len then None
           else if hd bs = 1 then Some (take len rest, drop len rest)
           else if hd bs = 0 then
             (case inflate_blocks (drop len rest) of
                None \<Rightarrow> None
              | Some (data, trailer) \<Rightarrow> Some (take len rest @ data, trailer))
           else None)"
  by pat_completeness auto
termination
  by (relation "measure length") auto

declare stored_blocks.simps [simp del] inflate_blocks.simps [simp del]

definition stored_inflate :: "bytes \<Rightarrow> bytes option" where
  "stored_inflate bs =
     (if take 2 bs \<noteq> [0x78, 0x01] then None
      else (case inflate_blocks (drop 2 bs) of
              None \<Rightarrow> None
            | Some (data, trailer) \<Rightarrow>
                if trailer = rev (ulong_bytes 4 (adler32 data)) then Some data else None))"

definition lp64 :: platform where
  "lp64 = \<lparr>deflate = stored_deflate, inflate = stored_inflate, uLong = ULong64,
            ptrdiff_t = Ptrdiff64\<rparr>"

text \<open>A file of two chunks: 16384 bytes \<open>0x41\<close>, then 16 bytes \<open>0x42\<close>.\<close>

definition full_chunk :: bytes where
  "full_chunk = replicate CHUNK_SIZE 0x41"

definition last_chunk :: bytes where
  "last_chunk = replicate 16 0x42"

section \<open>Notions for the statements\<close>

text \<open>What zlib promises: a stream is never empty and inflates to its source.\<close>

definition codec_ok :: "platform \<Rightarrow> bool" where
  "codec_ok P = (\<forall>data. deflate P data \<noteq> [] \<and> inflate P (deflate P data) = Some data)"

text \<open>
  A platform on which the fixed-size vectors of the program can be built and a
  \<^verbatim>\<open>uLong\<close> holds their sizes.
\<close>

definition platform_ok :: "platform \<Rightarrow> bool" where
  "platform_ok P = (codec_ok P \<and> 2 * CHUNK_SIZE \<le> max_size P)"

text \<open>A list cut into pieces of \<open>n\<close> elements, the last one possibly shorter.\<close>

function chunks_of :: "nat \<Rightarrow> 'a list \<Rightarrow> 'a list list" where
  "chunks_of n xs =
     (if n = 0 \<or> xs = [] then [] else take n xs # chunks_of n (drop n xs))"
  by pat_completeness auto
termination
  by (relation "measure (\<lambda>(n, xs). length xs)") auto

declare chunks_of.simps [simp del]

text \<open>A compressed file after its header: the records of the payloads \<open>ps\<close>.\<close>

definition framed :: "platform \<Rightarrow> bytes list \<Rightarrow> bytes" where
  "framed P ps = concat (map (write_record P) ps)"

text \<open>
  The results pushed and the exceptions caught, in the order of the schedule.
\<close>

definition results ::
  "(bytes \<Rightarrow> error + bytes) \<Rightarrow> bytes list \<Rightarrow> nat list \<Rightarrow> bytes list" where
  "results f threads sched =
     concat (map (\<lambda>i. if i < length threads
                       then (case f (threads ! i) of Inr r \<Rightarrow> [r] | Inl e \<Rightarrow> [])
                       else []) sched)"

definition failures ::
  "(bytes \<Rightarrow> error + bytes) \<Rightarrow> bytes list \<Rightarrow> nat list \<Rightarrow> (nat \<times> error) list" where
  "failures f threads sched =
     concat (map (\<lambda>i. if i < length threads
                       then (case f (threads ! i) of Inr r \<Rightarrow> [] | Inl e \<Rightarrow> [(i, e)])
                       else []) sched)"

text \<open>The threads that \<^verbatim>\<open>compressFile\<close> starts for a file.\<close>

definition compress_threads :: "bytes \<Rightarrow> bytes list" where
  "compress_threads content = read_chunks (ifstream_open content) []"

section \<open>Lemmas\<close>

subsection \<open>The length field and the reference codec\<close>

lemma length_ulong_bytes [simp]: "length (ulong_bytes w n) = w"
  by (induction w arbitrary: n) auto

lemma bytes_ulong_ulong_bytes: "bytes_ulong (ulong_bytes w n) = n mod 256 ^ w"
proof (induction w arbitrary: n)
  case 0
  then show ?case by simp
next
  case (Suc w)
  have "unat (of_nat (n mod 256) :: byte) = n mod 256"
    by (simp add: unat_of_nat)
  then show ?case
    using Suc [of "n div 256"] by (simp add: mod_mult2_eq)
qed

lemma ulong_bytes_2: "ulong_bytes 2 n = [of_nat (n mod 256), of_nat (n div 256 mod 256)]"
  by (simp add: numeral_2_eq_2)

lemma bytes_ulong_2: "n < 65536 \<Longrightarrow> bytes_ulong (ulong_bytes 2 n) = n"
  by (simp add: bytes_ulong_ulong_bytes)

lemma inflate_stored_block_final:
  "length data \<le> 65535 \<Longrightarrow> inflate_blocks (stored_block True data @ t) = Some (data, t)"
  using bytes_ulong_2 [of "length data"] bytes_ulong_2 [of "65535 - length data"]
  by (subst inflate_blocks.simps) (simp add: stored_block_def ulong_bytes_2)

lemma inflate_stored_block_more:
  "length data = 65535 \<Longrightarrow>
   inflate_blocks (stored_block False data @ t) =
     (case inflate_blocks t of None \<Rightarrow> None | Some (d, r) \<Rightarrow> Some (data @ d, r))"
  using bytes_ulong_2 [of "length data"] bytes_ulong_2 [of "65535 - length data"]
  by (subst inflate_blocks.simps) (simp add: stored_block_def ulong_bytes_2 split: option.splits)

lemma inflate_stored_blocks: "inflate_blocks (stored_blocks data @ t) = Some (data, t)"
proof (induction data rule: stored_blocks.induct)
  case (1 data)
  show ?case
  proof (cases "length data \<le> 65535")
    case True
    then show ?thesis
      by (subst stored_blocks.simps) (simp add: inflate_stored_block_final)
  next
    case False
    then show ?thesis
      using 1 by (subst stored_blocks.simps) (simp add: inflate_stored_block_more)
  qed
qed

lemma stored_roundtrip: "stored_inflate (stored_deflate data) = Some data"
  by (simp add: stored_inflate_def stored_deflate_def inflate_stored_blocks)

lemma length_stored_blocks: "5 + length data \<le> length (stored_blocks data)"
proof (induction data rule: stored_blocks.induct)
  case (1 data)
  show ?case
  proof (cases "length data \<le> 65535")
    case True
    then show ?thesis
      by (subst stored_blocks.simps) (simp add: stored_block_def)
  next
    case False
    then show ?thesis
      using 1 by (subst stored_blocks.simps) (simp add: stored_block_def)
  qed
qed

lemma length_stored_deflate: "11 + length data \<le> length (stored_deflate data)"
  using length_stored_blocks [of data] by (simp add: stored_deflate_def)

lemma length_stored_deflate_small:
  "length data \<le> 65535 \<Longrightarrow> length (stored_deflate data) = 11 + length data"
  by (simp add: stored_deflate_def stored_blocks.simps stored_block_def)

lemma stored_deflate_nonempty: "stored_deflate data \<noteq> []"
  using length_stored_deflate [of data] by auto

lemma codec_ok_lp64: "codec_ok lp64"
  by (simp add: codec_ok_def lp64_def stored_roundtrip stored_deflate_nonempty)

lemma platform_ok_lp64: "platform_ok lp64"
  using codec_ok_lp64
  by (simp add: platform_ok_def) (simp add: lp64_def max_size_def CHUNK_SIZE_def)

subsection \<open>Streams\<close>

lemma CHUNK_SIZE_pos: "0 < CHUNK_SIZE"
  by (simp add: CHUNK_SIZE_def)

lemma sizeof_uLong_pos: "0 < sizeof_uLong P"
  by (cases "uLong P") (simp_all add: sizeof_uLong_def)

lemma failbit_eofbit:
  "failbit s \<longrightarrow> eofbit s \<Longrightarrow> failbit (snd (istream_read n s)) \<longrightarrow> eofbit (snd (istream_read n s))"
  by (simp add: istream_read_def)

declare read_chunks.simps [simp del] read_records.simps [simp del]

lemma read_chunks_eof: "eofbit s \<Longrightarrow> read_chunks s acc = acc"
  by (simp add: read_chunks.simps)

lemma read_chunks_good:
  "\<not> eofbit s \<Longrightarrow> \<not> failbit s \<Longrightarrow>
   read_chunks s acc = acc @ chunks_of CHUNK_SIZE (pending s)"
proof (induction "pending s" arbitrary: s acc rule: length_induct)
  case 1
  show ?case
  proof (cases "pending s = []")
    case True
    with 1(2,3) show ?thesis
      by (subst read_chunks.simps) (simp add: istream_read_def chunks_of.simps CHUNK_SIZE_pos)
  next
    case False
    define s' where "s' = snd (istream_read CHUNK_SIZE s)"
    have rd: "istream_read CHUNK_SIZE s = (take CHUNK_SIZE (pending s), s')"
      using 1(2,3) by (simp add: s'_def istream_read_def)
    have g: "gcount s' \<noteq> 0"
      using 1(2,3) False CHUNK_SIZE_pos by (simp add: s'_def istream_read_def)
    have p: "pending s' = drop CHUNK_SIZE (pending s)"
      using 1(2,3) by (simp add: s'_def istream_read_def)
    have step: "read_chunks s acc = read_chunks s' (acc @ [take CHUNK_SIZE (pending s)])"
      using 1(2) rd g by (subst read_chunks.simps) simp
    have rest: "read_chunks s' (acc @ [take CHUNK_SIZE (pending s)])
                  = (acc @ [take CHUNK_SIZE (pending s)]) @ chunks_of CHUNK_SIZE (pending s')"
    proof (cases "eofbit s'")
      case True
      then have "length (pending s) < CHUNK_SIZE"
        using 1(2,3) by (simp add: s'_def istream_read_def)
      then have "pending s' = []" by (simp add: p)
      then show ?thesis using True by (simp add: read_chunks_eof chunks_of.simps)
    next
      case nf: False
      then have f': "\<not> failbit s'"
        using 1(2,3) by (simp add: s'_def istream_read_def)
      have "length (pending s') < length (pending s)"
        using False CHUNK_SIZE_pos by (simp add: p)
      then show ?thesis using 1(1) nf f' by blast
    qed
    have "chunks_of CHUNK_SIZE (pending s)
            = take CHUNK_SIZE (pending s) # chunks_of CHUNK_SIZE (pending s')"
      using False CHUNK_SIZE_pos by (subst chunks_of.simps) (simp add: p)
    then show ?thesis using step rest by simp
  qed
qed

lemma compress_threads_eq: "compress_threads content = chunks_of CHUNK_SIZE content"
  by (simp add: compress_threads_def read_chunks_good ifstream_open_def)

lemma concat_chunks_of: "0 < n \<Longrightarrow> concat (chunks_of n xs) = xs"
proof (induction n xs rule: chunks_of.induct)
  case (1 n xs)
  then show ?case by (subst chunks_of.simps) auto
qed

lemma chunks_of_sizes: "c \<in> set (chunks_of n xs) \<Longrightarrow> c \<noteq> [] \<and> length c \<le> n"
proof (induction n xs rule: chunks_of.induct)
  case (1 n xs)
  from 1(2) show ?case
    by (subst (asm) chunks_of.simps) (use 1(1) in \<open>auto split: if_splits\<close>)
qed

lemma chunks_of_full:
  "Suc k < length (chunks_of n xs) \<Longrightarrow> length (chunks_of n xs ! k) = n"
proof (induction n xs arbitrary: k rule: chunks_of.induct)
  case (1 n xs)
  show ?case
  proof (cases "n = 0 \<or> xs = []")
    case True
    with 1(2) show ?thesis by (simp add: chunks_of.simps)
  next
    case False
    then have eq: "chunks_of n xs = take n xs # chunks_of n (drop n xs)"
      by (subst chunks_of.simps) simp
    show ?thesis
    proof (cases k)
      case 0
      with 1(2) eq have "chunks_of n (drop n xs) \<noteq> []" by auto
      then have "drop n xs \<noteq> []" by (auto simp: chunks_of.simps)
      then show ?thesis using 0 eq by simp
    next
      case (Suc j)
      with 1(2) eq have "Suc j < length (chunks_of n (drop n xs))" by simp
      then show ?thesis using 1(1) [OF False] Suc eq by simp
    qed
  qed
qed

lemma length_chunks_of: "0 < n \<Longrightarrow> length (chunks_of n xs) = (length xs + n - 1) div n"
proof (induction n xs rule: chunks_of.induct)
  case (1 n xs)
  show ?case
  proof (cases "xs = []")
    case True
    then show ?thesis using 1(2) by (simp add: chunks_of.simps)
  next
    case False
    then have eq: "chunks_of n xs = take n xs # chunks_of n (drop n xs)"
      using 1(2) by (subst chunks_of.simps) simp
    have ih: "length (chunks_of n (drop n xs)) = (length xs - n + n - 1) div n"
      using 1 False by simp
    show ?thesis
    proof (cases "length xs \<le> n")
      case True
      moreover have "0 < length xs" using False by simp
      ultimately have "length xs + n - 1 < 2 * n" "n \<le> length xs + n - 1"
        using 1(2) by arith+
      then have "(length xs + n - 1) div n = 1"
        by (simp add: div_nat_eqI)
      moreover have "chunks_of n (drop n xs) = []"
        using True by (simp add: chunks_of.simps)
      ultimately show ?thesis using eq by simp
    next
      case False
      then have "length xs + n - 1 = (length xs - n + n - 1) + n" by simp
      then have "(length xs + n - 1) div n = Suc ((length xs - n + n - 1) div n)"
        using 1(2) by (metis div_add_self2 less_numeral_extra(3) Suc_eq_plus1)
      then show ?thesis using eq ih by simp
    qed
  qed
qed

subsection \<open>The records of a compressed file\<close>

lemma write_record_eq:
  "length p < 256 ^ sizeof_uLong P \<Longrightarrow>
   write_record P p = ulong_bytes (sizeof_uLong P) (length p) @ p"
  by (simp add: write_record_def)

lemma read_records_end:
  "\<not> eofbit s \<Longrightarrow> \<not> failbit s \<Longrightarrow> length (pending s) < sizeof_uLong P \<Longrightarrow>
   read_records P s acc = Inr acc"
  by (subst read_records.simps) (simp add: istream_read_def)

lemma read_records_step:
  assumes "\<not> eofbit s" and "\<not> failbit s"
    and "pending s = ulong_bytes (sizeof_uLong P) n @ rest"
    and "n < 256 ^ sizeof_uLong P"
  shows "read_records P s acc =
     (if max_size P < n then Inl (throw_in_loop acc LengthError)
      else if length rest < n then Inl (throw_in_loop acc CorruptedFile)
      else read_records P
             (s\<lparr>pending := drop n rest, eofbit := False, failbit := False, gcount := n\<rparr>)
             (acc @ [take n rest]))"
  using assms
  by (subst read_records.simps)
     (simp add: istream_read_def Let_def bytes_ulong_ulong_bytes min_def)

lemma read_records_framed:
  assumes "\<not> eofbit s" and "\<not> failbit s"
    and "pending s = framed P ps @ frag"
    and "length frag < sizeof_uLong P"
    and "\<forall>p\<in>set ps. length p < 256 ^ sizeof_uLong P \<and> length p \<le> max_size P"
  shows "read_records P s acc = Inr (acc @ ps)"
  using assms
proof (induction ps arbitrary: s acc)
  case Nil
  then show ?case by (simp add: framed_def read_records_end)
next
  case (Cons p ps)
  let ?s = "s\<lparr>pending := framed P ps @ frag, eofbit := False, failbit := False,
               gcount := length p\<rparr>"
  have pend: "pending s = ulong_bytes (sizeof_uLong P) (length p) @ (p @ framed P ps @ frag)"
    using Cons.prems by (simp add: framed_def write_record_eq)
  have "read_records P s acc = read_records P ?s (acc @ [p])"
    using read_records_step [OF Cons.prems(1,2) pend, of acc] Cons.prems(5) by simp
  also have "\<dots> = Inr ((acc @ [p]) @ ps)"
    using Cons.prems(4,5) by (intro Cons.IH) simp_all
  finally show ?case by simp
qed

lemma read_records_truncated:
  assumes "\<not> eofbit s" and "\<not> failbit s"
    and "pending s = framed P ps @ ulong_bytes (sizeof_uLong P) n @ payload"
    and "n < 256 ^ sizeof_uLong P" and "length payload < n"
    and "\<forall>p\<in>set ps. length p < 256 ^ sizeof_uLong P \<and> length p \<le> max_size P"
  shows "read_records P s acc =
           Inl (throw_in_loop (acc @ ps)
                  (if max_size P < n then LengthError else CorruptedFile))"
  using assms
proof (induction ps arbitrary: s acc)
  case Nil
  then show ?case
    using read_records_step [of s P n payload acc] by (simp add: framed_def)
next
  case (Cons p ps)
  let ?rest = "framed P ps @ ulong_bytes (sizeof_uLong P) n @ payload"
  let ?s = "s\<lparr>pending := ?rest, eofbit := False, failbit := False, gcount := length p\<rparr>"
  have pend: "pending s = ulong_bytes (sizeof_uLong P) (length p) @ (p @ ?rest)"
    using Cons.prems by (simp add: framed_def write_record_eq)
  have "read_records P s acc = read_records P ?s (acc @ [p])"
    using read_records_step [OF Cons.prems(1,2) pend, of acc] Cons.prems(6) by simp
  also have "\<dots> = Inl (throw_in_loop ((acc @ [p]) @ ps)
                       (if max_size P < n then LengthError else CorruptedFile))"
    using Cons.prems(4,5,6) by (intro Cons.IH) simp_all
  finally show ?case by simp
qed

lemma read_records_fragment:
  assumes "\<not> eofbit s" and "\<not> failbit s" and "\<not> eofbit s'" and "\<not> failbit s'"
    and "pending s = framed P ps @ frag" and "pending s' = framed P ps"
    and "length frag < sizeof_uLong P"
    and "\<forall>p\<in>set ps. length p < 256 ^ sizeof_uLong P"
  shows "read_records P s acc = read_records P s' acc"
  using assms
proof (induction ps arbitrary: s s' acc)
  case Nil
  then show ?case
    using sizeof_uLong_pos [of P] by (simp add: framed_def read_records_end)
next
  case (Cons p ps)
  let ?s = "s\<lparr>pending := framed P ps @ frag, eofbit := False, failbit := False,
               gcount := length p\<rparr>"
  let ?s' = "s'\<lparr>pending := framed P ps, eofbit := False, failbit := False,
               gcount := length p\<rparr>"
  have pend: "pending s = ulong_bytes (sizeof_uLong P) (length p) @ (p @ framed P ps @ frag)"
    and pend': "pending s' = ulong_bytes (sizeof_uLong P) (length p) @ (p @ framed P ps)"
    using Cons.prems by (simp_all add: framed_def write_record_eq)
  have rec: "read_records P ?s (acc @ [p]) = read_records P ?s' (acc @ [p])"
    using Cons.prems(7,8) by (intro Cons.IH) simp_all
  show ?case
    using read_records_step [OF Cons.prems(1,2) pend, of acc]
      read_records_step [OF Cons.prems(3,4) pend', of acc] Cons.prems(8) rec
    by simp
qed

lemma length_magic: "length magic = 4"
  by (simp add: magic_def)

lemma header_read:
  "istream_read 4 (ifstream_open (magic @ body))
     = (magic, \<lparr>pending = body, eofbit = False, failbit = False, gcount = 4\<rparr>)"
  by (simp add: istream_read_def ifstream_open_def magic_def)

lemma decompressFile_body:
  "decompressFile P header0 (Some (magic @ body)) True sched =
     (case read_records P \<lparr>pending = body, eofbit = False, failbit = False, gcount = 4\<rparr> [] of
        Inl thrown \<Rightarrow> (thrown, [])
      | Inr threads \<Rightarrow>
          (case threadException
                  (join_all (\<lambda>b. decompressBlock P b CHUNK_SIZE) threads sched) of
             Some (i, e) \<Rightarrow> (Rethrown i e, [])
           | None \<Rightarrow>
               (Returned,
                concat (collected
                  (join_all (\<lambda>b. decompressBlock P b CHUNK_SIZE) threads sched)))))"
  by (simp add: decompressFile_def header_read length_magic Let_def split: sum.splits)

text \<open>No call of \<^verbatim>\<open>decompressFile\<close> uses \<^verbatim>\<open>chunkSize\<close> unset.\<close>

lemma read_records_defined:
  "failbit s \<longrightarrow> eofbit s \<Longrightarrow> read_records P s acc \<noteq> Inl Undefined"
proof (induction "length (pending s)" arbitrary: s acc rule: less_induct)
  case less
  show ?case
  proof (cases "eofbit s")
    case True
    then show ?thesis by (subst read_records.simps) simp
  next
    case False
    with less.prems have good: "\<not> eofbit s" "\<not> failbit s" by auto
    show ?thesis
    proof (cases "length (pending s) < sizeof_uLong P")
      case True
      then show ?thesis using good by (simp add: read_records_end)
    next
      case False
      define n where "n = bytes_ulong (take (sizeof_uLong P) (pending s))"
      define rest where "rest = drop (sizeof_uLong P) (pending s)"
      define s' where "s' = s\<lparr>pending := drop n rest, eofbit := False, failbit := False,
                               gcount := n\<rparr>"
      have step: "read_records P s acc =
         (if max_size P < n then Inl (throw_in_loop acc LengthError)
          else if length rest < n then Inl (throw_in_loop acc CorruptedFile)
          else read_records P s' (acc @ [take n rest]))"
        using good False
        by (subst read_records.simps)
           (simp add: istream_read_def Let_def n_def rest_def s'_def min_def)
      have "length (pending s') < length (pending s)"
        using False sizeof_uLong_pos [of P] by (simp add: s'_def rest_def)
      then have "read_records P s' (acc @ [take n rest]) \<noteq> Inl Undefined"
        by (intro less.hyps) (simp_all add: s'_def)
      then show ?thesis
        by (simp add: step throw_in_loop_def)
    qed
  qed
qed

lemma decompressFile_defined: "fst (decompressFile P header0 inputFile outputOpens sched) \<noteq> Undefined"
proof -
  have "read_records P (snd (istream_read 4 (ifstream_open content))) [] \<noteq> Inl Undefined"
    for content
    by (rule read_records_defined) (simp add: istream_read_def ifstream_open_def)
  then show ?thesis
    by (auto simp: decompressFile_def Let_def split: option.splits prod.splits sum.splits)
       (metis snd_conv)
qed

subsection \<open>The join\<close>

lemma results_Nil [simp]: "results f threads [] = []"
  by (simp add: results_def)

lemma failures_Nil [simp]: "failures f threads [] = []"
  by (simp add: failures_def)

lemma results_Cons:
  "results f threads (i # sched) =
     (if i < length threads
      then (case f (threads ! i) of Inr r \<Rightarrow> [r] | Inl e \<Rightarrow> [])
      else []) @ results f threads sched"
  by (simp add: results_def)

lemma failures_Cons:
  "failures f threads (i # sched) =
     (if i < length threads
      then (case f (threads ! i) of Inr r \<Rightarrow> [] | Inl e \<Rightarrow> [(i, e)])
      else []) @ failures f threads sched"
  by (simp add: failures_def)

lemma foldl_complete:
  "foldl (complete f threads) st sched =
     \<lparr>collected = collected st @ results f threads sched,
      threadException =
        (if failures f threads sched = [] then threadException st
         else Some (last (failures f threads sched)))\<rparr>"
proof (induction sched arbitrary: st)
  case Nil
  then show ?case by simp
next
  case (Cons i sched)
  show ?case
  proof (cases "i < length threads")
    case False
    then show ?thesis
      using Cons [of st] by (simp add: complete_def results_Cons failures_Cons)
  next
    case True
    show ?thesis
    proof (cases "f (threads ! i)")
      case (Inl e)
      then show ?thesis
        using True Cons [of "st\<lparr>threadException := Some (i, e)\<rparr>"]
        by (simp add: complete_def results_Cons failures_Cons)
    next
      case (Inr r)
      then show ?thesis
        using True Cons [of "st\<lparr>collected := collected st @ [r]\<rparr>"]
        by (simp add: complete_def results_Cons failures_Cons)
    qed
  qed
qed

lemma join_all_eq:
  "join_all f threads sched =
     \<lparr>collected = results f threads sched,
      threadException =
        (if failures f threads sched = [] then None
         else Some (last (failures f threads sched)))\<rparr>"
  by (simp add: join_all_def foldl_complete shared_init_def)

lemma length_results_failures:
  "\<forall>i\<in>set sched. i < length threads \<Longrightarrow>
   length (results f threads sched) + length (failures f threads sched) = length sched"
  by (induction sched) (auto simp: results_Cons failures_Cons split: sum.splits)

lemma schedule_length: "schedule n sched \<Longrightarrow> length sched = n"
  unfolding schedule_def using distinct_card [of sched] by auto

lemma schedule_bound: "schedule n sched \<Longrightarrow> i \<in> set sched \<Longrightarrow> i < n"
  by (auto simp: schedule_def)

lemma failures_empty_iff:
  "failures f threads sched = [] \<longleftrightarrow>
     (\<forall>i\<in>set sched. i < length threads \<longrightarrow> (\<exists>r. f (threads ! i) = Inr r))"
  by (induction sched) (auto simp: failures_Cons split: sum.splits)

lemma results_all_ok:
  "\<forall>i\<in>set sched. i < length threads \<and> f (threads ! i) = Inr (g i) \<Longrightarrow>
   results f threads sched = map g sched"
  by (induction sched) (auto simp: results_Cons)

lemma chunks_of_append:
  "0 < n \<Longrightarrow> length a = n \<Longrightarrow> chunks_of n (a @ b) = a # chunks_of n b"
  by (subst chunks_of.simps) auto

lemma chunks_of_short:
  "xs \<noteq> [] \<Longrightarrow> length xs \<le> n \<Longrightarrow> chunks_of n xs = [xs]"
  by (subst chunks_of.simps) (cases n; auto simp: chunks_of.simps)

subsection \<open>The two operations in terms of the schedule\<close>

lemma compressFile_eq:
  "compressFile P (Some content) True sched =
     (if failures (compressBlock P) (compress_threads content) sched = []
      then (Returned,
            magic @ framed P (results (compressBlock P) (compress_threads content) sched))
      else (Rethrown (fst (last (failures (compressBlock P) (compress_threads content) sched)))
                     (snd (last (failures (compressBlock P) (compress_threads content) sched))),
            magic))"
  by (simp add: compressFile_def compress_threads_def [symmetric] join_all_eq framed_def
        Let_def split: prod.splits)

lemma decompressFile_eq:
  assumes "read_records P (snd (istream_read 4 (ifstream_open (magic @ body)))) [] = Inr threads"
  shows "decompressFile P header0 (Some (magic @ body)) True sched =
     (if failures (\<lambda>b. decompressBlock P b CHUNK_SIZE) threads sched = []
      then (Returned, concat (results (\<lambda>b. decompressBlock P b CHUNK_SIZE) threads sched))
      else (Rethrown
              (fst (last (failures (\<lambda>b. decompressBlock P b CHUNK_SIZE) threads sched)))
              (snd (last (failures (\<lambda>b. decompressBlock P b CHUNK_SIZE) threads sched))),
            []))"
  using assms
  by (simp add: decompressFile_body header_read join_all_eq split: prod.splits)

lemma failures_nonempty:
  "i \<in> set sched \<Longrightarrow> i < length threads \<Longrightarrow> f (threads ! i) = Inl e \<Longrightarrow>
   failures f threads sched \<noteq> []"
  by (auto simp: failures_empty_iff)

lemma records_of_framed:
  assumes "\<forall>p\<in>set ps. length p < 256 ^ sizeof_uLong P \<and> length p \<le> max_size P"
    and "length frag < sizeof_uLong P"
  shows "read_records P (snd (istream_read 4 (ifstream_open (magic @ framed P ps @ frag)))) []
           = Inr ps"
  using read_records_framed [of _ P ps frag "[]"] assms by (simp add: header_read)

lemma decompressFile_truncated:
  assumes "\<forall>p\<in>set ps. length p < 256 ^ sizeof_uLong P \<and> length p \<le> max_size P"
    and "n < 256 ^ sizeof_uLong P" and "length payload < n"
  shows "decompressFile P header0
           (Some (magic @ framed P ps @ ulong_bytes (sizeof_uLong P) n @ payload)) True sched
         = (if ps = [] then Raised (if max_size P < n then LengthError else CorruptedFile)
            else Terminated, [])"
  using read_records_truncated [of _ P ps n payload "[]"] assms
  by (simp add: decompressFile_body throw_in_loop_def)

subsection \<open>The block codec\<close>

lemma fixed_sizes_fit: "2 * CHUNK_SIZE \<le> max_size P"
  by (cases "ptrdiff_t P") (simp_all add: max_size_def CHUNK_SIZE_def)

lemma chunk_size_fits: "n \<le> CHUNK_SIZE \<Longrightarrow> \<not> max_size P < n * 2" "\<not> max_size P < CHUNK_SIZE"
  using fixed_sizes_fit [of P] by simp_all

lemma compressBlock_short:
  "data \<noteq> [] \<Longrightarrow> length data \<le> CHUNK_SIZE \<Longrightarrow>
   length data * 2 < length (deflate P data) \<Longrightarrow>
   compressBlock P data = Inl CompressionError"
  by (simp add: compressBlock_def zcompress_def chunk_size_fits)

lemma compressBlock_fits:
  "data \<noteq> [] \<Longrightarrow> length data \<le> CHUNK_SIZE \<Longrightarrow>
   length (deflate P data) \<le> length data * 2 \<Longrightarrow>
   compressBlock P data = Inr (deflate P data)"
  by (simp add: compressBlock_def zcompress_def chunk_size_fits)

lemma decompressBlock_corrupt:
  "inflate P p = None \<Longrightarrow> p \<noteq> [] \<Longrightarrow>
   decompressBlock P p CHUNK_SIZE = Inl DecompressionError"
  by (simp add: decompressBlock_def zuncompress_def chunk_size_fits)

lemma decompressBlock_inflate:
  "compressedData \<noteq> [] \<Longrightarrow> inflate P compressedData = Some raw \<Longrightarrow>
   decompressBlock P compressedData originalSize =
     (if max_size P < originalSize then Inl LengthError
      else if originalSize = 0 then (if length raw \<le> 1 then Inr [] else Inl DecompressionError)
      else if length raw \<le> originalSize then Inr raw
      else Inl DecompressionError)"
  by (simp add: decompressBlock_def zuncompress_def)

lemma decompressBlock_chunk:
  "compressedData \<noteq> [] \<Longrightarrow> inflate P compressedData = Some raw \<Longrightarrow>
   decompressBlock P compressedData CHUNK_SIZE =
     (if length raw \<le> CHUNK_SIZE then Inr raw else Inl DecompressionError)"
  using CHUNK_SIZE_pos by (simp add: decompressBlock_inflate chunk_size_fits)

subsection \<open>Files whose chunks or records all succeed\<close>

lemma compress_threads_nonempty:
  "i < length (compress_threads content) \<Longrightarrow> compress_threads content ! i \<noteq> []"
  using chunks_of_sizes [of "compress_threads content ! i" CHUNK_SIZE content]
  by (simp add: compress_threads_eq)

lemma compress_threads_size:
  "i < length (compress_threads content) \<Longrightarrow>
   length (compress_threads content ! i) \<le> CHUNK_SIZE"
  using chunks_of_sizes [of "compress_threads content ! i" CHUNK_SIZE content]
  by (simp add: compress_threads_eq)

lemma compressFile_order:
  assumes "\<forall>i\<in>set sched. i < length (compress_threads content) \<and>
             length (deflate P (compress_threads content ! i))
               \<le> length (compress_threads content ! i) * 2"
  shows "compressFile P (Some content) True sched =
           (Returned,
            magic @ framed P (map (\<lambda>i. deflate P (compress_threads content ! i)) sched))"
proof -
  have ok: "\<forall>i\<in>set sched. i < length (compress_threads content) \<and>
      compressBlock P (compress_threads content ! i)
        = Inr (deflate P (compress_threads content ! i))"
    using assms
    by (simp add: compressBlock_fits compress_threads_nonempty compress_threads_size)
  then have "failures (compressBlock P) (compress_threads content) sched = []"
    by (simp add: failures_empty_iff)
  moreover have "results (compressBlock P) (compress_threads content) sched
      = map (\<lambda>i. deflate P (compress_threads content ! i)) sched"
    using ok by (intro results_all_ok) simp
  ultimately show ?thesis
    by (simp add: compressFile_eq)
qed

lemma decompressFile_records:
  assumes "\<forall>p\<in>set ps. length p < 256 ^ sizeof_uLong P \<and> length p \<le> max_size P"
    and "length frag < sizeof_uLong P"
    and "\<forall>i\<in>set sched. i < length ps \<and> decompressBlock P (ps ! i) CHUNK_SIZE = Inr (g i)"
  shows "decompressFile P header0 (Some (magic @ framed P ps @ frag)) True sched
           = (Returned, concat (map g sched))"
proof -
  have "failures (\<lambda>b. decompressBlock P b CHUNK_SIZE) ps sched = []"
    using assms(3) by (simp add: failures_empty_iff)
  moreover have "results (\<lambda>b. decompressBlock P b CHUNK_SIZE) ps sched = map g sched"
    using assms(3) by (intro results_all_ok) simp
  ultimately show ?thesis
    by (simp add: decompressFile_eq [OF records_of_framed [OF assms(1,2)]])
qed

lemma div_round_up:
  assumes "0 < (n::nat)"
  shows "(n * Suc k + n - 1) div n = Suc k"
proof -
  have "n * Suc k + n - 1 = n * Suc k + (n - 1)"
    using assms by simp
  moreover have "(n * Suc k + (n - 1)) div n = Suc k + (n - 1) div n"
    using assms by (intro div_mult_self4) simp
  moreover have "(n - 1) div n = 0"
    using assms by simp
  ultimately show ?thesis by simp
qed

lemma decode_records:
  assumes "\<forall>i\<in>set sched. i < length ps \<and> ps ! i \<noteq> [] \<and> inflate P (ps ! i) = Some (raws ! i)"
  shows "failures (\<lambda>b. decompressBlock P b CHUNK_SIZE) ps sched
           = map (\<lambda>i. (i, DecompressionError))
               (filter (\<lambda>i. CHUNK_SIZE < length (raws ! i)) sched)"
    and "results (\<lambda>b. decompressBlock P b CHUNK_SIZE) ps sched
           = map (\<lambda>i. raws ! i) (filter (\<lambda>i. length (raws ! i) \<le> CHUNK_SIZE) sched)"
  using assms
  by (induction sched) (auto simp: failures_Cons results_Cons decompressBlock_chunk)

subsection \<open>The reference platform on small inputs\<close>

lemma sizeof_uLong_lp64: "sizeof_uLong lp64 = 8"
  by (simp add: sizeof_uLong_def lp64_def)

lemma max_size_lp64: "max_size lp64 = 9223372036854775807"
  by (simp add: max_size_def lp64_def)

lemma inflate_lp64: "inflate lp64 = stored_inflate"
  by (simp add: lp64_def)

lemma deflate_lp64: "deflate lp64 = stored_deflate"
  by (simp add: lp64_def)

lemma ulong_bytes_numeral:
  "ulong_bytes (numeral k) n = of_nat (n mod 256) # ulong_bytes (pred_numeral k) (n div 256)"
  using ulong_bytes.simps(2) [of "pred_numeral k" n] by (simp only: numeral_eq_Suc [of k])

lemma ulong_bytes_1: "ulong_bytes 1 n = [of_nat (n mod 256)]"
  by simp

lemma write_record_lp64:
  "length p < 256 \<Longrightarrow> write_record lp64 p = [of_nat (length p), 0, 0, 0, 0, 0, 0, 0] @ p"
  by (simp add: write_record_def sizeof_uLong_lp64 ulong_bytes_numeral ulong_bytes_1)

lemma hd_write_record_lp64:
  "length p < 18446744073709551616 \<Longrightarrow> hd (write_record lp64 p @ t) = of_nat (length p mod 256)"
  by (simp add: write_record_def sizeof_uLong_lp64 ulong_bytes_numeral Let_def)

lemma stored_inflate_bad_header:
  "take 2 p \<noteq> [0x78, 0x01] \<Longrightarrow> stored_inflate p = None"
  unfolding stored_inflate_def by (rule if_P)

lemma stored_deflate_a:
  "stored_deflate [0x61] = [0x78, 0x01, 0x01, 0x01, 0x00, 0xFE, 0xFF, 0x61, 0x00, 0x62, 0x00, 0x62]"
  by (simp add: stored_deflate_def stored_blocks.simps stored_block_def ulong_bytes_numeral
        adler32_def)

lemma inflate_a:
  "inflate lp64 [0x78, 0x01, 0x01, 0x01, 0x00, 0xFE, 0xFF, 0x61, 0x00, 0x62, 0x00, 0x62]
     = Some [0x61]"
  using stored_roundtrip [of "[0x61]"] by (simp add: inflate_lp64 stored_deflate_a)

lemma lp64_payload:
  assumes "length d \<le> 65535"
  shows "stored_deflate d \<noteq> []" and "inflate lp64 (stored_deflate d) = Some d"
    and "length (stored_deflate d) < 256 ^ sizeof_uLong lp64"
    and "length (stored_deflate d) \<le> max_size lp64"
  using assms
  by (simp_all add: stored_deflate_nonempty inflate_lp64 stored_roundtrip
        length_stored_deflate_small sizeof_uLong_lp64 max_size_lp64)

lemma CHUNK_SIZE_small: "CHUNK_SIZE + 1 \<le> 65535" "Suc 0 \<le> CHUNK_SIZE"
  by (simp_all add: CHUNK_SIZE_def)

lemma lp64_decode:
  assumes "length d \<le> CHUNK_SIZE"
  shows "decompressBlock lp64 (stored_deflate d) CHUNK_SIZE = Inr d"
proof -
  have "length d \<le> 65535"
    using assms CHUNK_SIZE_small(1) by simp
  then show ?thesis
    using assms lp64_payload(1,2) [of d] by (simp add: decompressBlock_chunk)
qed

lemma two_bad_records:
  "read_records lp64
     (snd (istream_read 4 (ifstream_open
        (magic @ [1, 0, 0, 0, 0, 0, 0, 0, 0, 1, 0, 0, 0, 0, 0, 0, 0, 1])))) []
     = Inr [[0], [1]]"
  using records_of_framed [of "[[0], [1]]" lp64 "[]"]
  by (simp add: framed_def write_record_lp64 sizeof_uLong_lp64 max_size_lp64)

lemma two_bad_records_fail:
  "decompressBlock lp64 [0] CHUNK_SIZE = Inl DecompressionError"
  "decompressBlock lp64 [1] CHUNK_SIZE = Inl DecompressionError"
  by (rule decompressBlock_corrupt; simp add: inflate_lp64 stored_inflate_bad_header)+

lemma short_file_fails:
  "compress_threads [0x62] = [[0x62]]"
  "failures (compressBlock lp64) [[0x62]] [0] = [(0, CompressionError)]"
proof -
  show "compress_threads [0x62] = [[0x62]]"
    by (simp add: compress_threads_eq chunks_of_short CHUNK_SIZE_def)
  have "compressBlock lp64 [0x62] = Inl CompressionError"
    by (rule compressBlock_short)
       (simp_all add: deflate_lp64 length_stored_deflate_small CHUNK_SIZE_def)
  then show "failures (compressBlock lp64) [[0x62]] [0] = [(0, CompressionError)]"
    by (simp add: failures_Cons)
qed

subsection \<open>The file of two chunks\<close>

lemma length_full_chunk: "length full_chunk = CHUNK_SIZE"
  by (simp add: full_chunk_def)

lemma length_last_chunk: "length last_chunk = 16"
  by (simp add: last_chunk_def)

lemma two_chunks: "compress_threads (full_chunk @ last_chunk) = [full_chunk, last_chunk]"
proof -
  have "last_chunk \<noteq> []" "length last_chunk \<le> CHUNK_SIZE"
    using length_last_chunk by (auto simp: CHUNK_SIZE_def)
  then show ?thesis
    by (simp add: compress_threads_eq chunks_of_append chunks_of_short CHUNK_SIZE_pos
          length_full_chunk)
qed

lemma length_deflate_chunks:
  "length (stored_deflate full_chunk) = 16395" "length (stored_deflate last_chunk) = 27"
  by (simp_all add: length_stored_deflate_small length_full_chunk length_last_chunk
        CHUNK_SIZE_def)

lemma chunks_differ: "last_chunk @ full_chunk \<noteq> full_chunk @ last_chunk"
proof
  assume "last_chunk @ full_chunk = full_chunk @ last_chunk"
  then have "hd (last_chunk @ full_chunk) = hd (full_chunk @ last_chunk)"
    by simp
  moreover have "hd (last_chunk @ full_chunk) = 0x42"
    by (simp add: last_chunk_def)
  moreover have "hd (full_chunk @ last_chunk) = 0x41"
    using CHUNK_SIZE_pos by (simp add: full_chunk_def hd_append)
  ultimately show False
    by simp
qed

lemma compress_two_chunks:
  assumes "set sched \<subseteq> {0, 1}"
  shows "compressFile lp64 (Some (full_chunk @ last_chunk)) True sched =
           (Returned,
            magic @ framed lp64 (map (\<lambda>i. stored_deflate ([full_chunk, last_chunk] ! i)) sched))"
proof -
  have "\<forall>i\<in>set sched. i < length [full_chunk, last_chunk] \<and>
          length (deflate lp64 ([full_chunk, last_chunk] ! i))
            \<le> length ([full_chunk, last_chunk] ! i) * 2"
  proof
    fix i assume "i \<in> set sched"
    with assms have "i = 0 \<or> i = 1" by auto
    then show "i < length [full_chunk, last_chunk] \<and>
          length (deflate lp64 ([full_chunk, last_chunk] ! i))
            \<le> length ([full_chunk, last_chunk] ! i) * 2"
      by (auto simp: deflate_lp64 length_deflate_chunks length_full_chunk length_last_chunk
            CHUNK_SIZE_def)
  qed
  then show ?thesis
    using compressFile_order [of sched "full_chunk @ last_chunk" lp64]
    by (simp add: two_chunks deflate_lp64)
qed

lemma decompress_two_chunks:
  assumes "set sched \<subseteq> {0, 1}"
  shows "decompressFile lp64 header0
           (Some (magic @ framed lp64 [stored_deflate full_chunk, stored_deflate last_chunk]))
           True sched
         = (Returned, concat (map (\<lambda>i. [full_chunk, last_chunk] ! i) sched))"
proof -
  let ?ps = "[stored_deflate full_chunk, stored_deflate last_chunk]"
  have a: "length full_chunk \<le> 65535" "length last_chunk \<le> 65535"
    by (simp_all add: length_full_chunk length_last_chunk CHUNK_SIZE_def)
  have "\<forall>p\<in>set ?ps. length p < 256 ^ sizeof_uLong lp64 \<and> length p \<le> max_size lp64"
    using lp64_payload [OF a(1)] lp64_payload [OF a(2)] by simp
  moreover have "\<forall>i\<in>set sched. i < length ?ps \<and>
      decompressBlock lp64 (?ps ! i) CHUNK_SIZE = Inr ([full_chunk, last_chunk] ! i)"
  proof
    fix i assume "i \<in> set sched"
    with assms have "i = 0 \<or> i = 1" by auto
    then show "i < length ?ps \<and>
      decompressBlock lp64 (?ps ! i) CHUNK_SIZE = Inr ([full_chunk, last_chunk] ! i)"
      using lp64_decode [of full_chunk] lp64_decode [of last_chunk]
      by (auto simp: length_full_chunk length_last_chunk) (simp_all add: CHUNK_SIZE_def)
  qed
  ultimately show ?thesis
    using decompressFile_records
      [of ?ps lp64 "[]" sched "\<lambda>i. [full_chunk, last_chunk] ! i" header0]
    by (simp add: sizeof_uLong_lp64)
qed

section \<open>The claims\<close>

subsection \<open>C1: the round trip\<close>

text \<open>
  C1 fails on the code. \<^verbatim>\<open>compressBlock\<close> gives \<^verbatim>\<open>compress\<close> a destination of twice
  the size of the chunk. A zlib stream has at least 7 bytes (2 of header, 4 of checksum,
  at least one between them), so on every platform a last chunk of 1 to 3 bytes cannot
  be compressed: \<^verbatim>\<open>compressFile\<close> on a file of 1 to 3 bytes rethrows the compression
  error, and there is no compressed file to decompress.
\<close>

theorem short_file_not_compressed:
  "(\<forall>data. 7 \<le> length (deflate P data)) \<and> content \<noteq> [] \<and> length content \<le> 3 \<longrightarrow>
     compressFile P (Some content) True [0] = (Rethrown 0 CompressionError, magic)"
proof (intro impI; elim conjE)
  assume z: "\<forall>data. 7 \<le> length (deflate P data)"
    and c: "content \<noteq> []" "length content \<le> 3"
  have t: "compress_threads content = [content]"
    using c by (simp add: compress_threads_eq chunks_of_short CHUNK_SIZE_def)
  have "length content * 2 < length (deflate P content)"
    using z [rule_format, of content] c(2) by simp
  moreover have "length content \<le> CHUNK_SIZE"
    using c(2) by (simp add: CHUNK_SIZE_def)
  ultimately have "compressBlock P content = Inl CompressionError"
    using c(1) by (intro compressBlock_short)
  then show "compressFile P (Some content) True [0] = (Rethrown 0 CompressionError, magic)"
    by (simp add: compressFile_eq t failures_Cons)
qed

text \<open>The file of the single byte \<open>0x61\<close>, on the reference platform.\<close>

theorem single_byte_not_compressed:
  "(\<forall>data. 7 \<le> length (deflate lp64 data)) \<and> [0x61 :: byte] \<noteq> [] \<and>
   length [0x61 :: byte] \<le> 3 \<and>
   compressFile lp64 (Some [0x61]) True [0] = (Rethrown 0 CompressionError, magic)"
proof -
  have z: "\<forall>data. 7 \<le> length (deflate lp64 data)"
  proof
    fix data
    show "7 \<le> length (deflate lp64 data)"
      using length_stored_deflate [of data] by (simp add: deflate_lp64)
  qed
  then show ?thesis
    using short_file_not_compressed [of lp64 "[0x61]"] by simp
qed

text \<open>
  Where the round trip holds: on a platform whose codec inverts itself, for a file whose
  chunks each compress into twice their size, when the workers of both operations
  complete in the order in which they were started.
\<close>

lemma roundtrip_in_order:
  assumes "platform_ok P"
    and "\<forall>c\<in>set (compress_threads content). length (deflate P c) \<le> length c * 2"
  shows "compressFile P (Some content) True [0..<length (compress_threads content)]
           = (Returned, magic @ framed P (map (deflate P) (compress_threads content)))"
    and "decompressFile P header0
           (Some (magic @ framed P (map (deflate P) (compress_threads content)))) True
           [0..<length (compress_threads content)]
           = (Returned, content)"
proof -
  let ?cs = "compress_threads content"
  let ?ps = "map (deflate P) ?cs"
  have idx: "map (\<lambda>i. f (?cs ! i)) [0..<length ?cs] = map f ?cs" for f :: "bytes \<Rightarrow> bytes"
    by (rule nth_equalityI) simp_all
  have "compressFile P (Some content) True [0..<length ?cs]
          = (Returned, magic @ framed P (map (\<lambda>i. deflate P (?cs ! i)) [0..<length ?cs]))"
    using assms(2) by (intro compressFile_order) simp
  then show "compressFile P (Some content) True [0..<length ?cs]
           = (Returned, magic @ framed P ?ps)"
    by (simp only: idx)
  have size: "length c \<le> CHUNK_SIZE" "c \<noteq> []" if "c \<in> set ?cs" for c
    using that chunks_of_sizes [of c CHUNK_SIZE content] by (simp_all add: compress_threads_eq)
  have w: "(32768 :: nat) < 256 ^ sizeof_uLong P"
    by (cases "uLong P") (simp_all add: sizeof_uLong_def)
  have len: "length (deflate P c) < 256 ^ sizeof_uLong P \<and> length (deflate P c) \<le> max_size P"
    if "c \<in> set ?cs" for c
  proof -
    have "length (deflate P c) \<le> length c * 2"
      using assms(2) that by blast
    then have "length (deflate P c) \<le> 2 * CHUNK_SIZE"
      using size(1) [OF that] by simp
    then show ?thesis
      using assms(1) w by (simp add: platform_ok_def CHUNK_SIZE_def)
  qed
  have dec: "decompressBlock P (deflate P c) CHUNK_SIZE = Inr c" if "c \<in> set ?cs" for c
    using assms(1) size(1) [OF that]
    by (simp add: platform_ok_def codec_ok_def decompressBlock_chunk)
  have "decompressFile P header0 (Some (magic @ framed P ?ps @ [])) True [0..<length ?cs]
          = (Returned, concat (map (\<lambda>i. ?cs ! i) [0..<length ?cs]))"
    using len dec sizeof_uLong_pos [of P] by (intro decompressFile_records) auto
  then show "decompressFile P header0 (Some (magic @ framed P ?ps)) True [0..<length ?cs]
           = (Returned, content)"
    using concat_chunks_of [OF CHUNK_SIZE_pos, of content]
    by (simp add: map_nth compress_threads_eq)
qed

text \<open>
  The round trip on the file of two chunks, \<open>full_chunk @ last_chunk\<close>, with the
  workers of \<^verbatim>\<open>compressFile\<close> completing in reverse and those of \<^verbatim>\<open>decompressFile\<close> in
  order: the two chunks come back exchanged.
\<close>

lemma roundtrip_reordered:
  "compressFile lp64 (Some (full_chunk @ last_chunk)) True [1, 0]
     = (Returned, magic @ framed lp64 [stored_deflate last_chunk, stored_deflate full_chunk])"
  "decompressFile lp64 header0
       (Some (magic @ framed lp64 [stored_deflate last_chunk, stored_deflate full_chunk]))
       True [0, 1]
     = (Returned, last_chunk @ full_chunk)"
proof -
  show "compressFile lp64 (Some (full_chunk @ last_chunk)) True [1, 0]
     = (Returned, magic @ framed lp64 [stored_deflate last_chunk, stored_deflate full_chunk])"
    using compress_two_chunks [of "[1, 0]"] by simp
  let ?ps = "[stored_deflate last_chunk, stored_deflate full_chunk]"
  have a: "length full_chunk \<le> 65535" "length last_chunk \<le> 65535"
    by (simp_all add: length_full_chunk length_last_chunk CHUNK_SIZE_def)
  have "\<forall>p\<in>set ?ps. length p < 256 ^ sizeof_uLong lp64 \<and> length p \<le> max_size lp64"
    using lp64_payload [OF a(1)] lp64_payload [OF a(2)] by simp
  moreover have "\<forall>i\<in>set [0, 1]. i < length ?ps \<and>
      decompressBlock lp64 (?ps ! i) CHUNK_SIZE = Inr ([last_chunk, full_chunk] ! i)"
    using lp64_decode [of full_chunk] lp64_decode [of last_chunk]
    by (simp add: length_full_chunk length_last_chunk) (simp add: CHUNK_SIZE_def)
  ultimately show "decompressFile lp64 header0 (Some (magic @ framed lp64 ?ps)) True [0, 1]
     = (Returned, last_chunk @ full_chunk)"
    using decompressFile_records
      [of ?ps lp64 "[]" "[0, 1]" "\<lambda>i. [last_chunk, full_chunk] ! i" header0]
    by (simp add: sizeof_uLong_lp64)
qed

subsection \<open>C2: the order of the records\<close>

text \<open>
  C2 fails on the code. The workers push their results in the order in which they
  complete, and nothing sorts the vector afterwards. On the file of two chunks, when the
  worker of the last chunk completes first, \<^verbatim>\<open>compressFile\<close> writes the record of the
  last chunk first; and \<^verbatim>\<open>decompressFile\<close>, on the compressed file with its records in
  the order of the chunks, writes the last chunk first when its worker completes first.
\<close>

theorem records_in_completion_order:
  "compressFile lp64 (Some (full_chunk @ last_chunk)) True [1, 0]
     = (Returned,
        magic @ write_record lp64 (stored_deflate last_chunk)
              @ write_record lp64 (stored_deflate full_chunk)) \<and>
   write_record lp64 (stored_deflate last_chunk) @ write_record lp64 (stored_deflate full_chunk)
     \<noteq> write_record lp64 (stored_deflate full_chunk)
         @ write_record lp64 (stored_deflate last_chunk) \<and>
   decompressFile lp64 []
       (Some (magic @ write_record lp64 (stored_deflate full_chunk)
                    @ write_record lp64 (stored_deflate last_chunk))) True [1, 0]
     = (Returned, last_chunk @ full_chunk) \<and>
   last_chunk @ full_chunk \<noteq> full_chunk @ last_chunk"
proof -
  have "hd (write_record lp64 (stored_deflate last_chunk)
              @ write_record lp64 (stored_deflate full_chunk))
        \<noteq> hd (write_record lp64 (stored_deflate full_chunk)
              @ write_record lp64 (stored_deflate last_chunk))"
    by (simp add: hd_write_record_lp64 length_deflate_chunks)
  then have "write_record lp64 (stored_deflate last_chunk)
               @ write_record lp64 (stored_deflate full_chunk)
             \<noteq> write_record lp64 (stored_deflate full_chunk)
               @ write_record lp64 (stored_deflate last_chunk)"
    by auto
  then show ?thesis
    using compress_two_chunks [of "[1, 0]"] decompress_two_chunks [of "[1, 0]" "[]"]
      chunks_differ
    by (simp add: framed_def)
qed

subsection \<open>C3: which failure is raised\<close>

text \<open>
  C3, as the code has it. Each failing worker assigns \<^verbatim>\<open>threadException\<close>, with no test
  of what it holds, so the exception rethrown is the one of the worker that failed last
  in the order of completion: the last failure wins. It is rethrown after the join, when
  every worker has either pushed its result or stored its exception.
\<close>

theorem last_failure_wins:
  "(schedule (length (compress_threads content)) sched \<and>
    failures (compressBlock P) (compress_threads content) sched \<noteq> [] \<longrightarrow>
      compressFile P (Some content) True sched =
        (Rethrown (fst (last (failures (compressBlock P) (compress_threads content) sched)))
                  (snd (last (failures (compressBlock P) (compress_threads content) sched))),
         magic) \<and>
      length (collected (join_all (compressBlock P) (compress_threads content) sched))
        + length (failures (compressBlock P) (compress_threads content) sched)
        = length (compress_threads content)) \<and>
   (read_records P (snd (istream_read 4 (ifstream_open (magic @ body)))) [] = Inr threads \<and>
    schedule (length threads) sched' \<and>
    failures (\<lambda>b. decompressBlock P b CHUNK_SIZE) threads sched' \<noteq> [] \<longrightarrow>
      decompressFile P header0 (Some (magic @ body)) True sched' =
        (Rethrown (fst (last (failures (\<lambda>b. decompressBlock P b CHUNK_SIZE) threads sched')))
                  (snd (last (failures (\<lambda>b. decompressBlock P b CHUNK_SIZE) threads sched'))),
         []) \<and>
      length (collected (join_all (\<lambda>b. decompressBlock P b CHUNK_SIZE) threads sched'))
        + length (failures (\<lambda>b. decompressBlock P b CHUNK_SIZE) threads sched')
        = length threads)"
proof -
  have count: "length (collected (join_all f ts s)) + length (failures f ts s) = length ts"
    if "schedule (length ts) s" for f ts s
    using that length_results_failures [of s ts f] schedule_bound [OF that]
    by (simp add: join_all_eq schedule_length)
  show ?thesis
    using count by (simp add: compressFile_eq decompressFile_eq)
qed

text \<open>
  A file of one byte, whose chunk cannot be compressed into two bytes, and a compressed
  file of two records, neither a zlib stream: when worker 1 fails first and worker 0
  second, the exception of worker 0 is rethrown.
\<close>

theorem last_failure_wins_witness:
  "schedule (length (compress_threads [0x62])) [0] \<and>
   failures (compressBlock lp64) (compress_threads [0x62]) [0] = [(0, CompressionError)] \<and>
   compressFile lp64 (Some [0x62]) True [0] = (Rethrown 0 CompressionError, magic) \<and>
   read_records lp64
     (snd (istream_read 4 (ifstream_open
        (magic @ [1, 0, 0, 0, 0, 0, 0, 0, 0, 1, 0, 0, 0, 0, 0, 0, 0, 1])))) []
     = Inr [[0], [1]] \<and>
   schedule (length [[0 :: byte], [1]]) [1, 0] \<and>
   failures (\<lambda>b. decompressBlock lp64 b CHUNK_SIZE) [[0], [1]] [1, 0]
     = [(1, DecompressionError), (0, DecompressionError)] \<and>
   decompressFile lp64 [] (Some (magic @ [1, 0, 0, 0, 0, 0, 0, 0, 0, 1, 0, 0, 0, 0, 0, 0, 0, 1]))
       True [1, 0]
     = (Rethrown 0 DecompressionError, []) \<and>
   length (collected (join_all (\<lambda>b. decompressBlock lp64 b CHUNK_SIZE) [[0], [1]] [1, 0])) + 2
     = 2"
proof -
  let ?F = "failures (\<lambda>b. decompressBlock lp64 b CHUNK_SIZE) [[0], [1]] [1, 0]"
  let ?G = "failures (compressBlock lp64) (compress_threads [0x62]) [0]"
  note inst = last_failure_wins
      [where P = lp64 and threads = "[[0], [1]]" and sched' = "[1, 0]" and ?header0.0 = "[]"
         and body = "[1, 0, 0, 0, 0, 0, 0, 0, 0, 1, 0, 0, 0, 0, 0, 0, 0, 1]"
         and content = "[0x62]" and sched = "[0]"]
  have s: "schedule (length [[0 :: byte], [1]]) [1, 0]"
    by (auto simp: schedule_def)
  have f: "?F = [(1, DecompressionError), (0, DecompressionError)]"
    by (simp add: failures_Cons two_bad_records_fail)
  then have ne: "?F \<noteq> []"
    by simp
  have s1: "schedule (length (compress_threads [0x62])) [0]"
    by (simp add: short_file_fails schedule_def)
  have g: "?G = [(0, CompressionError)]"
    by (simp add: short_file_fails)
  then have ne1: "?G \<noteq> []"
    by simp
  have "compressFile lp64 (Some [0x62]) True [0]
          = (Rethrown (fst (last ?G)) (snd (last ?G)), magic)"
    using inst s1 ne1 by blast
  moreover have "decompressFile lp64 []
          (Some (magic @ [1, 0, 0, 0, 0, 0, 0, 0, 0, 1, 0, 0, 0, 0, 0, 0, 0, 1])) True [1, 0]
          = (Rethrown (fst (last ?F)) (snd (last ?F)), []) \<and>
        length (collected (join_all (\<lambda>b. decompressBlock lp64 b CHUNK_SIZE) [[0], [1]] [1, 0]))
          + length ?F = length [[0 :: byte], [1]]"
    using inst two_bad_records s ne by blast
  ultimately show ?thesis
    unfolding f g using two_bad_records s s1 by simp
qed

text \<open>
  C3 as the spec states it fails: on the compressed file of two records that are no
  zlib streams, with worker 0 failing first and worker 1 second, the first failure
  observed is that of worker 0 and the exception rethrown is that of worker 1.
\<close>

theorem first_failure_lost:
  "failures (\<lambda>b. decompressBlock lp64 b CHUNK_SIZE) [[0], [1]] [0, 1]
     = [(0, DecompressionError), (1, DecompressionError)] \<and>
   decompressFile lp64 [] (Some (magic @ [1, 0, 0, 0, 0, 0, 0, 0, 0, 1, 0, 0, 0, 0, 0, 0, 0, 1]))
       True [0, 1]
     = (Rethrown 1 DecompressionError, [])"
  by (simp add: decompressFile_eq [OF two_bad_records] failures_Cons two_bad_records_fail)

subsection \<open>C4: no partial output\<close>

text \<open>
  C4. When a worker fails, the operation fails and writes nothing of what the other
  workers produced: \<^verbatim>\<open>compressFile\<close> rethrows with the output holding the four bytes of
  the header and no record, \<^verbatim>\<open>decompressFile\<close> rethrows with an empty output.
\<close>

theorem failure_discards_output:
  "(schedule (length (compress_threads content)) sched \<and>
    i < length (compress_threads content) \<and>
    compressBlock P (compress_threads content ! i) = Inl e1 \<longrightarrow>
      (\<exists>j e'. compressFile P (Some content) True sched = (Rethrown j e', magic))) \<and>
   (read_records P (snd (istream_read 4 (ifstream_open (magic @ body)))) [] = Inr threads \<and>
    schedule (length threads) sched' \<and>
    i' < length threads \<and>
    decompressBlock P (threads ! i') CHUNK_SIZE = Inl e2 \<longrightarrow>
      (\<exists>j e'. decompressFile P header0 (Some (magic @ body)) True sched' = (Rethrown j e', [])))"
proof (intro conjI impI; elim conjE)
  assume s: "schedule (length (compress_threads content)) sched"
    and i: "i < length (compress_threads content)"
    and f: "compressBlock P (compress_threads content ! i) = Inl e1"
  from s i have "i \<in> set sched" by (simp add: schedule_def)
  then have "failures (compressBlock P) (compress_threads content) sched \<noteq> []"
    using i f by (rule failures_nonempty)
  then show "\<exists>j e'. compressFile P (Some content) True sched = (Rethrown j e', magic)"
    by (simp add: compressFile_eq)
next
  assume r: "read_records P (snd (istream_read 4 (ifstream_open (magic @ body)))) []
               = Inr threads"
    and s: "schedule (length threads) sched'"
    and i: "i' < length threads"
    and f: "decompressBlock P (threads ! i') CHUNK_SIZE = Inl e2"
  from s i have "i' \<in> set sched'" by (simp add: schedule_def)
  then have "failures (\<lambda>b. decompressBlock P b CHUNK_SIZE) threads sched' \<noteq> []"
    using i f by (rule failures_nonempty)
  then show "\<exists>j e'. decompressFile P header0 (Some (magic @ body)) True sched'
               = (Rethrown j e', [])"
    by (simp add: decompressFile_eq [OF r])
qed

text \<open>
  A file of 16385 bytes: the worker of the full chunk succeeds and the worker of the
  last chunk, one byte, fails. And a compressed file of two records: the zlib stream of
  the byte \<open>0x61\<close>, whose worker succeeds, and the byte 0, which is no zlib stream.
  In both, the result of the worker that succeeded has been collected and is not
  written.
\<close>

theorem failure_discards_output_witness:
  "schedule (length (compress_threads (full_chunk @ [0x62]))) [0, 1] \<and>
   compressBlock lp64 (compress_threads (full_chunk @ [0x62]) ! 0)
     = Inr (stored_deflate full_chunk) \<and>
   compressBlock lp64 (compress_threads (full_chunk @ [0x62]) ! 1) = Inl CompressionError \<and>
   collected (join_all (compressBlock lp64) (compress_threads (full_chunk @ [0x62])) [0, 1])
     = [stored_deflate full_chunk] \<and>
   (\<exists>j e'. compressFile lp64 (Some (full_chunk @ [0x62])) True [0, 1]
             = (Rethrown j e', magic)) \<and>
   read_records lp64
     (snd (istream_read 4 (ifstream_open
        (magic @ framed lp64 [stored_deflate [0x61], [0]])))) []
     = Inr [stored_deflate [0x61], [0]] \<and>
   schedule (length [stored_deflate [0x61], [0]]) [0, 1] \<and>
   decompressBlock lp64 ([stored_deflate [0x61], [0]] ! 0) CHUNK_SIZE = Inr [0x61] \<and>
   decompressBlock lp64 ([stored_deflate [0x61], [0]] ! 1) CHUNK_SIZE
     = Inl DecompressionError \<and>
   collected (join_all (\<lambda>b. decompressBlock lp64 b CHUNK_SIZE)
                [stored_deflate [0x61], [0]] [0, 1])
     = [[0x61]] \<and>
   (\<exists>j e'. decompressFile lp64 []
               (Some (magic @ framed lp64 [stored_deflate [0x61], [0]])) True [0, 1]
             = (Rethrown j e', []))"
proof -
  let ?ps = "[stored_deflate [0x61], [0]]"
  note inst = failure_discards_output
      [where content = "full_chunk @ [0x62]" and sched = "[0, 1]" and i = 1 and P = lp64
         and ?e1.0 = CompressionError and body = "framed lp64 ?ps"
         and threads = ?ps and sched' = "[0, 1]" and i' = 1 and ?e2.0 = DecompressionError
         and ?header0.0 = "[]"]
  have t: "compress_threads (full_chunk @ [0x62]) = [full_chunk, [0x62]]"
    using CHUNK_SIZE_small(2)
    by (simp add: compress_threads_eq chunks_of_append chunks_of_short CHUNK_SIZE_pos
          length_full_chunk)
  have c0: "compressBlock lp64 full_chunk = Inr (stored_deflate full_chunk)"
    using compressBlock_fits [of full_chunk lp64]
    by (simp add: deflate_lp64 length_deflate_chunks length_full_chunk)
       (simp add: full_chunk_def CHUNK_SIZE_def)
  have c1: "compressBlock lp64 [0x62] = Inl CompressionError"
    by (rule compressBlock_short)
       (simp_all add: deflate_lp64 length_stored_deflate_small CHUNK_SIZE_def)
  have s: "schedule (Suc (Suc 0)) [0, 1]"
    by (auto simp: schedule_def)
  have a: "length [0x61 :: byte] \<le> 65535"
    by simp
  have r: "read_records lp64 (snd (istream_read 4 (ifstream_open (magic @ framed lp64 ?ps)))) []
             = Inr ?ps"
    using records_of_framed [of ?ps lp64 "[]"] lp64_payload [OF a]
    by (simp add: sizeof_uLong_lp64 max_size_lp64)
  have d0: "decompressBlock lp64 (stored_deflate [0x61]) CHUNK_SIZE = Inr [0x61]"
    using lp64_decode [of "[0x61]"] CHUNK_SIZE_small(2) by simp
  have d1: "decompressBlock lp64 [0] CHUNK_SIZE = Inl DecompressionError"
    by (rule two_bad_records_fail)
  have k: "collected (join_all (compressBlock lp64) [full_chunk, [0x62]] [0, 1])
             = [stored_deflate full_chunk]"
    "collected (join_all (\<lambda>b. decompressBlock lp64 b CHUNK_SIZE) ?ps [0, 1]) = [[0x61]]"
    by (simp_all add: join_all_eq results_Cons c0 c1 d0 d1)
  have "\<exists>j e'. compressFile lp64 (Some (full_chunk @ [0x62])) True [0, 1]
          = (Rethrown j e', magic)"
    using inst t c1 s by simp
  moreover have "\<exists>j e'. decompressFile lp64 [] (Some (magic @ framed lp64 ?ps)) True [0, 1]
          = (Rethrown j e', [])"
    using inst r d1 s by simp
  ultimately show ?thesis
    using t c0 c1 s r d0 d1 k by simp
qed

text \<open>
  More generally, however a call fails: \<^verbatim>\<open>compressFile\<close> has then written at most the
  header, \<^verbatim>\<open>decompressFile\<close> nothing.
\<close>

lemma nothing_written_on_failure:
  "fst (compressFile P inputFile outputOpens sched) \<noteq> Returned \<Longrightarrow>
   snd (compressFile P inputFile outputOpens sched) \<in> {[], magic}"
  "fst (decompressFile P header0 inputFile outputOpens sched) \<noteq> Returned \<Longrightarrow>
   snd (decompressFile P header0 inputFile outputOpens sched) = []"
  by (auto simp: compressFile_def decompressFile_def Let_def
        split: option.splits prod.splits sum.splits if_splits)

subsection \<open>C5: the size given to the decoder\<close>

text \<open>
  C5, as the code has it. For every record \<^verbatim>\<open>decompressBlock\<close> is called with the
  constant \<open>CHUNK_SIZE\<close>, whatever the size of the chunk was. The call fails for a
  record whose content is longer than \<open>CHUNK_SIZE\<close>, and \<^verbatim>\<open>decompressFile\<close> then
  rethrows; for a record whose content is not longer, it returns the content: a content
  shorter than the size given is accepted. So for every compressed file of records that
  hold zlib streams, and every schedule.
\<close>

theorem decode_with_chunk_size:
  "length raws = length ps \<and>
   (\<forall>k<length ps. ps ! k \<noteq> [] \<and> inflate P (ps ! k) = Some (raws ! k) \<and>
        length (ps ! k) < 256 ^ sizeof_uLong P \<and> length (ps ! k) \<le> max_size P) \<and>
   schedule (length ps) sched \<longrightarrow>
     (\<forall>k<length ps. decompressBlock P (ps ! k) CHUNK_SIZE =
        (if length (raws ! k) \<le> CHUNK_SIZE then Inr (raws ! k)
         else Inl DecompressionError)) \<and>
     decompressFile P header0 (Some (magic @ framed P ps)) True sched =
       (if \<forall>k<length ps. length (raws ! k) \<le> CHUNK_SIZE
        then (Returned, concat (map (\<lambda>i. raws ! i) sched))
        else (Rethrown (last (filter (\<lambda>i. CHUNK_SIZE < length (raws ! i)) sched))
                DecompressionError, []))"
proof (intro impI; elim conjE)
  assume rec: "\<forall>k<length ps. ps ! k \<noteq> [] \<and> inflate P (ps ! k) = Some (raws ! k) \<and>
        length (ps ! k) < 256 ^ sizeof_uLong P \<and> length (ps ! k) \<le> max_size P"
    and s: "schedule (length ps) sched"
  let ?f = "\<lambda>b. decompressBlock P b CHUNK_SIZE"
  let ?big = "filter (\<lambda>i. CHUNK_SIZE < length (raws ! i)) sched"
  have blocks: "\<forall>k<length ps. decompressBlock P (ps ! k) CHUNK_SIZE =
        (if length (raws ! k) \<le> CHUNK_SIZE then Inr (raws ! k) else Inl DecompressionError)"
    using rec by (simp add: decompressBlock_chunk)
  have "\<forall>p\<in>set ps. length p < 256 ^ sizeof_uLong P \<and> length p \<le> max_size P"
    using rec by (auto simp: in_set_conv_nth)
  then have r: "read_records P (snd (istream_read 4 (ifstream_open (magic @ framed P ps)))) []
                  = Inr ps"
    using records_of_framed [of ps P "[]"] sizeof_uLong_pos [of P] by simp
  have idx: "\<forall>i\<in>set sched. i < length ps \<and> ps ! i \<noteq> [] \<and> inflate P (ps ! i) = Some (raws ! i)"
    using rec schedule_bound [OF s] by simp
  note fr = decode_records [OF idx]
  have whole: "decompressFile P header0 (Some (magic @ framed P ps)) True sched =
       (if \<forall>k<length ps. length (raws ! k) \<le> CHUNK_SIZE
        then (Returned, concat (map (\<lambda>i. raws ! i) sched))
        else (Rethrown (last ?big) DecompressionError, []))"
  proof (cases "\<forall>k<length ps. length (raws ! k) \<le> CHUNK_SIZE")
    case True
    then have all: "\<forall>i\<in>set sched. length (raws ! i) \<le> CHUNK_SIZE"
      using schedule_bound [OF s] by simp
    then have "?big = []" "filter (\<lambda>i. length (raws ! i) \<le> CHUNK_SIZE) sched = sched"
      by (auto simp: filter_empty_conv)
    then show ?thesis
      using True by (simp add: decompressFile_eq [OF r] fr)
  next
    case False
    then obtain k where "k < length ps" "CHUNK_SIZE < length (raws ! k)"
      by (auto simp: not_le)
    moreover from this s have "k \<in> set sched"
      by (simp add: schedule_def)
    ultimately have ne: "?big \<noteq> []"
      by (auto simp: filter_empty_conv)
    then show ?thesis
      using False by (simp add: decompressFile_eq [OF r] fr last_map)
  qed
  show "(\<forall>k<length ps. decompressBlock P (ps ! k) CHUNK_SIZE =
        (if length (raws ! k) \<le> CHUNK_SIZE then Inr (raws ! k)
         else Inl DecompressionError)) \<and>
     decompressFile P header0 (Some (magic @ framed P ps)) True sched =
       (if \<forall>k<length ps. length (raws ! k) \<le> CHUNK_SIZE
        then (Returned, concat (map (\<lambda>i. raws ! i) sched))
        else (Rethrown (last ?big) DecompressionError, []))"
    using blocks whole by simp
qed

text \<open>
  A compressed file of two records, the zlib streams of the byte \<open>0x61\<close> and of 16385
  bytes 0, with the worker of the second record completing first: the first record is
  decoded, the second is not, and the call rethrows the error of worker 1.
\<close>

theorem decode_with_chunk_size_witness:
  "inflate lp64 (stored_deflate [0x61]) = Some [0x61] \<and>
   inflate lp64 (stored_deflate (replicate (CHUNK_SIZE + 1) 0))
     = Some (replicate (CHUNK_SIZE + 1) 0) \<and>
   schedule (length [stored_deflate [0x61], stored_deflate (replicate (CHUNK_SIZE + 1) 0)])
     [1, 0] \<and>
   decompressBlock lp64 (stored_deflate [0x61]) CHUNK_SIZE = Inr [0x61] \<and>
   decompressBlock lp64 (stored_deflate (replicate (CHUNK_SIZE + 1) 0)) CHUNK_SIZE
     = Inl DecompressionError \<and>
   decompressFile lp64 []
       (Some (magic @ framed lp64
          [stored_deflate [0x61], stored_deflate (replicate (CHUNK_SIZE + 1) 0)]))
       True [1, 0]
     = (Rethrown 1 DecompressionError, [])"
proof -
  let ?big = "replicate (CHUNK_SIZE + 1) (0 :: byte)"
  let ?ps = "[stored_deflate [0x61], stored_deflate ?big]"
  let ?raws = "[[0x61], ?big]"
  note inst = decode_with_chunk_size
      [where P = lp64 and ps = ?ps and raws = ?raws and sched = "[1, 0]" and ?header0.0 = "[]"]
  have a: "length ?big \<le> 65535" "length [0x61 :: byte] \<le> 65535"
    using CHUNK_SIZE_small by simp_all
  have s: "schedule (length ?ps) [1, 0]"
    by (auto simp: schedule_def)
  have rec: "\<forall>k<length ?ps. ?ps ! k \<noteq> [] \<and> inflate lp64 (?ps ! k) = Some (?raws ! k) \<and>
        length (?ps ! k) < 256 ^ sizeof_uLong lp64 \<and> length (?ps ! k) \<le> max_size lp64"
  proof (intro allI impI)
    fix k assume "k < length ?ps"
    then have "k = 0 \<or> k = 1" by auto
    then show "?ps ! k \<noteq> [] \<and> inflate lp64 (?ps ! k) = Some (?raws ! k) \<and>
        length (?ps ! k) < 256 ^ sizeof_uLong lp64 \<and> length (?ps ! k) \<le> max_size lp64"
      using lp64_payload [OF a(1)] lp64_payload [OF a(2)] by auto
  qed
  have concl: "(\<forall>k<length ?ps. decompressBlock lp64 (?ps ! k) CHUNK_SIZE =
        (if length (?raws ! k) \<le> CHUNK_SIZE then Inr (?raws ! k)
         else Inl DecompressionError)) \<and>
     decompressFile lp64 [] (Some (magic @ framed lp64 ?ps)) True [1, 0] =
       (if \<forall>k<length ?ps. length (?raws ! k) \<le> CHUNK_SIZE
        then (Returned, concat (map (\<lambda>i. ?raws ! i) [1, 0]))
        else (Rethrown (last (filter (\<lambda>i. CHUNK_SIZE < length (?raws ! i)) [1, 0]))
                DecompressionError, []))"
    using inst rec s by simp
  have b0: "decompressBlock lp64 (stored_deflate [0x61]) CHUNK_SIZE = Inr [0x61]"
    using concl [THEN conjunct1, rule_format, of 0] CHUNK_SIZE_small(2) by simp
  have b1: "decompressBlock lp64 (stored_deflate ?big) CHUNK_SIZE = Inl DecompressionError"
    using concl [THEN conjunct1, rule_format, of 1] by simp
  have "\<not> (\<forall>k<length ?ps. length (?raws ! k) \<le> CHUNK_SIZE)"
    by (auto intro: exI [of _ 1])
  then have "decompressFile lp64 [] (Some (magic @ framed lp64 ?ps)) True [1, 0]
      = (Rethrown (last (filter (\<lambda>i. CHUNK_SIZE < length (?raws ! i)) [1, 0]))
           DecompressionError, [])"
    using concl [THEN conjunct2] by (simp only: if_False)
  then have f: "decompressFile lp64 [] (Some (magic @ framed lp64 ?ps)) True [1, 0]
      = (Rethrown 1 DecompressionError, [])"
    using CHUNK_SIZE_small(2) by simp
  show ?thesis
    using b0 b1 f s lp64_payload(2) [OF a(1)] lp64_payload(2) [OF a(2)] by simp
qed

text \<open>
  C5 as the spec states it fails: the zlib stream of the single byte \<open>0x61\<close> (a stored
  block) is decoded with the size 16384, which is not the size of its content, and the
  call succeeds, in \<^verbatim>\<open>decompressBlock\<close> and in \<^verbatim>\<open>decompressFile\<close> on the file of that one
  record.
\<close>

theorem short_chunk_accepted:
  "inflate lp64 [0x78, 0x01, 0x01, 0x01, 0x00, 0xFE, 0xFF, 0x61, 0x00, 0x62, 0x00, 0x62]
     = Some [0x61] \<and>
   length [0x61 :: byte] \<noteq> CHUNK_SIZE \<and>
   decompressBlock lp64
       [0x78, 0x01, 0x01, 0x01, 0x00, 0xFE, 0xFF, 0x61, 0x00, 0x62, 0x00, 0x62] CHUNK_SIZE
     = Inr [0x61] \<and>
   decompressFile lp64 []
       (Some (magic @ [12, 0, 0, 0, 0, 0, 0, 0,
                       0x78, 0x01, 0x01, 0x01, 0x00, 0xFE, 0xFF, 0x61, 0x00, 0x62, 0x00, 0x62]))
       True [0]
     = (Returned, [0x61])"
proof -
  let ?z = "[0x78, 0x01, 0x01, 0x01, 0x00, 0xFE, 0xFF, 0x61, 0x00, 0x62, 0x00, 0x62] :: bytes"
  have b: "decompressBlock lp64 ?z CHUNK_SIZE = Inr [0x61]"
    using decompressBlock_chunk [OF _ inflate_a] CHUNK_SIZE_small(2) by simp
  have "decompressFile lp64 [] (Some (magic @ framed lp64 [?z] @ [])) True [0]
          = (Returned, concat (map (\<lambda>i. [0x61]) [0]))"
    using decompressFile_records [of "[?z]" lp64 "[]" "[0]" "\<lambda>i. [0x61]" "[]"] b
    by (simp add: sizeof_uLong_lp64 max_size_lp64)
  then show ?thesis
    using b inflate_a by (simp add: framed_def write_record_lp64 CHUNK_SIZE_def)
qed

text \<open>
  \<^verbatim>\<open>decompressBlock\<close> is called with no other size than \<open>CHUNK_SIZE\<close>. Called with 0,
  it would return an empty vector for a payload whose content is one byte, since
  \<^verbatim>\<open>uncompress\<close> then reports \<^verbatim>\<open>Z_OK\<close> and the size 0.
\<close>

lemma no_room_for_one_byte:
  "decompressBlock lp64 [0x78, 0x01, 0x01, 0x01, 0x00, 0xFE, 0xFF, 0x61, 0x00, 0x62, 0x00, 0x62] 0
     = Inr []"
  using decompressBlock_inflate [OF _ inflate_a, of 0] by simp

subsection \<open>C6: a record cut short\<close>

text \<open>
  C6 fails on the code. The file: the header, one complete record (the 9 bytes that
  zlib writes for the byte \<open>0x61\<close>), then a length field of 5 and only 2 bytes of
  payload. The exception for the corrupted file is thrown while the thread of the first
  record is joinable, so the call ends in \<^verbatim>\<open>std::terminate()\<close>, not in that exception,
  whatever the schedule.
\<close>

theorem truncated_after_record_terminates:
  "\<forall>header0 sched.
     decompressFile lp64 header0
       (Some (magic @ [9, 0, 0, 0, 0, 0, 0, 0,
                       0x78, 0x9C, 0x4B, 0x04, 0x00, 0x00, 0x62, 0x00, 0x62,
                       5, 0, 0, 0, 0, 0, 0, 0,
                       1, 2]))
       True sched
     = (Terminated, []) \<and>
     \<not> is_FormatError (fst (decompressFile lp64 header0
       (Some (magic @ [9, 0, 0, 0, 0, 0, 0, 0,
                       0x78, 0x9C, 0x4B, 0x04, 0x00, 0x00, 0x62, 0x00, 0x62,
                       5, 0, 0, 0, 0, 0, 0, 0,
                       1, 2]))
       True sched))"
proof (intro allI)
  fix header0 sched
  have "decompressFile lp64 header0
       (Some (magic @ framed lp64 [[0x78, 0x9C, 0x4B, 0x04, 0x00, 0x00, 0x62, 0x00, 0x62]]
                @ ulong_bytes (sizeof_uLong lp64) 5 @ [1, 2])) True sched
     = (Terminated, [])"
    by (subst decompressFile_truncated) (simp_all add: sizeof_uLong_lp64 max_size_lp64)
  then have "decompressFile lp64 header0
       (Some (magic @ [9, 0, 0, 0, 0, 0, 0, 0,
                       0x78, 0x9C, 0x4B, 0x04, 0x00, 0x00, 0x62, 0x00, 0x62,
                       5, 0, 0, 0, 0, 0, 0, 0,
                       1, 2]))
       True sched
     = (Terminated, [])"
    by (simp add: framed_def write_record_lp64 sizeof_uLong_lp64 ulong_bytes_numeral)
  then show "decompressFile lp64 header0
       (Some (magic @ [9, 0, 0, 0, 0, 0, 0, 0,
                       0x78, 0x9C, 0x4B, 0x04, 0x00, 0x00, 0x62, 0x00, 0x62,
                       5, 0, 0, 0, 0, 0, 0, 0,
                       1, 2]))
       True sched
     = (Terminated, []) \<and>
     \<not> is_FormatError (fst (decompressFile lp64 header0
       (Some (magic @ [9, 0, 0, 0, 0, 0, 0, 0,
                       0x78, 0x9C, 0x4B, 0x04, 0x00, 0x00, 0x62, 0x00, 0x62,
                       5, 0, 0, 0, 0, 0, 0, 0,
                       1, 2]))
       True sched))"
    by simp
qed

text \<open>
  Where C6 holds: when the record cut short is the first one, and its length field does
  not exceed what a vector can hold, the exception for the corrupted file leaves the
  function.
\<close>

lemma truncated_first_record:
  "n < 256 ^ sizeof_uLong P \<Longrightarrow> n \<le> max_size P \<Longrightarrow> length payload < n \<Longrightarrow>
   decompressFile P header0 (Some (magic @ ulong_bytes (sizeof_uLong P) n @ payload)) True sched
     = (Raised CorruptedFile, [])"
  using decompressFile_truncated [of "[]" P n payload header0 sched]
  by (simp add: framed_def)

text \<open>
  A length field beyond \<^verbatim>\<open>max_size()\<close> ends in the \<^verbatim>\<open>std::length_error\<close> of the vector
  constructor, before the payload is read.
\<close>

lemma huge_length_field:
  "decompressFile lp64 header0
     (Some (magic @ [0xFF, 0xFF, 0xFF, 0xFF, 0xFF, 0xFF, 0xFF, 0xFF, 1, 2])) True sched
     = (Raised LengthError, [])"
proof -
  have "ulong_bytes (sizeof_uLong lp64) 18446744073709551615
          = [0xFF, 0xFF, 0xFF, 0xFF, 0xFF, 0xFF, 0xFF, 0xFF]"
    by (simp add: sizeof_uLong_lp64 ulong_bytes_numeral)
  then show ?thesis
    using decompressFile_truncated [of "[]" lp64 18446744073709551615 "[1, 2]" header0 sched]
    by (simp add: framed_def sizeof_uLong_lp64 max_size_lp64)
qed

subsection \<open>C7: the chunk splitter\<close>

text \<open>
  C7. The chunk splitter: for every content of the input file, the reading loop of
  \<^verbatim>\<open>compressFile\<close> ends (it is a total function) and starts its threads on chunks that
  are, in order, the content of the file; no chunk is empty, none is longer than
  \<open>CHUNK_SIZE\<close> = 16384 bytes, and every chunk but the last has exactly that size.
\<close>

theorem chunk_splitter:
  "concat (compress_threads content) = content \<and>
   (\<forall>c\<in>set (compress_threads content). c \<noteq> [] \<and> length c \<le> CHUNK_SIZE) \<and>
   (\<forall>k. Suc k < length (compress_threads content) \<longrightarrow>
        length (compress_threads content ! k) = CHUNK_SIZE)"
  using chunks_of_sizes [of _ CHUNK_SIZE content] chunks_of_full [of _ CHUNK_SIZE content]
  by (simp add: compress_threads_eq concat_chunks_of CHUNK_SIZE_pos)

text \<open>A file of 16385 bytes: a full chunk and a chunk of one byte.\<close>

theorem chunk_splitter_witness:
  "compress_threads (replicate CHUNK_SIZE 0x41 @ [0x42]) = [replicate CHUNK_SIZE 0x41, [0x42]] \<and>
   [0x42] \<in> set (compress_threads (replicate CHUNK_SIZE 0x41 @ [0x42])) \<and>
   Suc 0 < length (compress_threads (replicate CHUNK_SIZE 0x41 @ [0x42])) \<and>
   length (compress_threads (replicate CHUNK_SIZE 0x41 @ [0x42]) ! 0) = CHUNK_SIZE \<and>
   concat (compress_threads (replicate CHUNK_SIZE 0x41 @ [0x42]))
     = replicate CHUNK_SIZE 0x41 @ [0x42]"
  using chunk_splitter [of "replicate CHUNK_SIZE 0x41 @ [0x42]"]
  by (simp add: compress_threads_eq chunks_of_append chunks_of_short CHUNK_SIZE_pos
        CHUNK_SIZE_pos [THEN Suc_leI])

subsection \<open>C8: the number of threads\<close>

text \<open>
  C8, as the code has it. \<^verbatim>\<open>compressFile\<close> starts one thread for each chunk, so
  \<open>\<lceil>n / 16384\<rceil>\<close> threads for a file of \<open>n\<close> bytes, and \<^verbatim>\<open>decompressFile\<close> one
  thread for each record; all of them are started before the first is joined, and no
  pool or limit bounds their number.
\<close>

theorem thread_per_chunk:
  "length (compress_threads content) = (length content + CHUNK_SIZE - 1) div CHUNK_SIZE \<and>
   ((\<forall>p\<in>set ps. length p < 256 ^ sizeof_uLong P \<and> length p \<le> max_size P) \<longrightarrow>
      read_records P (snd (istream_read 4 (ifstream_open (magic @ framed P ps)))) [] = Inr ps)"
  using records_of_framed [of ps P "[]"] sizeof_uLong_pos [of P]
  by (simp add: compress_threads_eq length_chunks_of CHUNK_SIZE_pos)

text \<open>A file of two bytes is one chunk; a compressed file of one record starts one thread.\<close>

theorem thread_per_chunk_witness:
  "length [0x78 :: byte] < 256 ^ sizeof_uLong lp64 \<and> length [0x78 :: byte] \<le> max_size lp64 \<and>
   read_records lp64
     (snd (istream_read 4 (ifstream_open (magic @ framed lp64 [[0x78]])))) [] = Inr [[0x78]] \<and>
   length (compress_threads [0x61, 0x62]) = 1"
  using thread_per_chunk [of "[0x61, 0x62]" "[[0x78]]" lp64]
  by (simp add: sizeof_uLong_lp64 max_size_lp64 CHUNK_SIZE_def)

text \<open>
  C8 as the spec states it fails: whatever the limit, some file makes \<^verbatim>\<open>compressFile\<close>
  start more threads than that.
\<close>

theorem unbounded_threads:
  "\<not> (\<exists>limit. \<forall>content. length (compress_threads content) \<le> limit)"
proof
  assume "\<exists>limit. \<forall>content. length (compress_threads content) \<le> limit"
  then obtain limit where
    bound: "\<And>content. length (compress_threads content) \<le> limit"
    by blast
  have "length (compress_threads (replicate (CHUNK_SIZE * Suc limit) 0)) = Suc limit"
    by (simp only: compress_threads_eq length_chunks_of [OF CHUNK_SIZE_pos] length_replicate
          div_round_up [OF CHUNK_SIZE_pos])
  with bound [of "replicate (CHUNK_SIZE * Suc limit) 0"] show False
    by simp
qed

subsection \<open>C9: a buffer larger than the content\<close>




subsection \<open>C10: a trailing fragment\<close>

text \<open>
  C10. A compressed file that ends, after its records, in fewer bytes than a length
  field has: \<^verbatim>\<open>decompressFile\<close> does what it does on the file without those bytes, and
  returns when every record can be decoded.
\<close>

theorem trailing_fragment_ignored:
  "((\<forall>p\<in>set ps. length p < 256 ^ sizeof_uLong P) \<and> length frag < sizeof_uLong P \<longrightarrow>
      decompressFile P header0 (Some (magic @ framed P ps @ frag)) outputOpens sched
        = decompressFile P header0 (Some (magic @ framed P ps)) outputOpens sched) \<and>
   ((\<forall>p\<in>set ps. length p < 256 ^ sizeof_uLong P \<and> length p \<le> max_size P \<and>
        (p = [] \<or> (\<exists>raw. inflate P p = Some raw \<and> length raw \<le> CHUNK_SIZE))) \<and>
    length frag < sizeof_uLong P \<and> schedule (length ps) sched \<longrightarrow>
      fst (decompressFile P header0 (Some (magic @ framed P ps @ frag)) True sched) = Returned)"
proof (intro conjI impI; elim conjE)
  assume l: "\<forall>p\<in>set ps. length p < 256 ^ sizeof_uLong P" and f: "length frag < sizeof_uLong P"
  have "read_records P \<lparr>pending = framed P ps @ frag, eofbit = False, failbit = False,
                         gcount = 4\<rparr> []
          = read_records P \<lparr>pending = framed P ps, eofbit = False, failbit = False,
                             gcount = 4\<rparr> []"
    using l f by (intro read_records_fragment) simp_all
  then have "decompressFile P header0 (Some (magic @ framed P ps @ frag)) True sched
          = decompressFile P header0 (Some (magic @ framed P ps)) True sched"
    by (simp add: decompressFile_body)
  then show "decompressFile P header0 (Some (magic @ framed P ps @ frag)) outputOpens sched
        = decompressFile P header0 (Some (magic @ framed P ps)) outputOpens sched"
    by (cases outputOpens) (simp_all add: decompressFile_def)
next
  assume rec: "\<forall>p\<in>set ps. length p < 256 ^ sizeof_uLong P \<and> length p \<le> max_size P \<and>
        (p = [] \<or> (\<exists>raw. inflate P p = Some raw \<and> length raw \<le> CHUNK_SIZE))"
    and f: "length frag < sizeof_uLong P" and s: "schedule (length ps) sched"
  have ok: "\<exists>r. decompressBlock P p CHUNK_SIZE = Inr r" if "p \<in> set ps" for p
  proof (cases "p = []")
    case True
    then show ?thesis by (simp add: decompressBlock_def)
  next
    case False
    with rec that obtain raw where "inflate P p = Some raw" "length raw \<le> CHUNK_SIZE"
      by blast
    with False show ?thesis by (simp add: decompressBlock_chunk)
  qed
  have r: "read_records P (snd (istream_read 4 (ifstream_open (magic @ framed P ps @ frag)))) []
             = Inr ps"
    using rec f by (intro records_of_framed) simp_all
  have "failures (\<lambda>b. decompressBlock P b CHUNK_SIZE) ps sched = []"
    using ok by (simp add: failures_empty_iff)
  then show "fst (decompressFile P header0 (Some (magic @ framed P ps @ frag)) True sched)
               = Returned"
    using decompressFile_eq [OF r, of header0 sched] by simp
qed

text \<open>
  The compressed file of one record, the zlib stream of the byte \<open>0x61\<close>, with three
  more bytes behind it.
\<close>

theorem trailing_fragment_ignored_witness:
  "length [0xAA :: byte, 0xBB, 0xCC] < sizeof_uLong lp64 \<and>
   schedule (length [stored_deflate [0x61]]) [0] \<and>
   decompressFile lp64 []
       (Some (magic @ framed lp64 [stored_deflate [0x61]] @ [0xAA, 0xBB, 0xCC])) True [0]
     = decompressFile lp64 [] (Some (magic @ framed lp64 [stored_deflate [0x61]])) True [0] \<and>
   fst (decompressFile lp64 []
       (Some (magic @ framed lp64 [stored_deflate [0x61]] @ [0xAA, 0xBB, 0xCC])) True [0])
     = Returned"
proof -
  note inst = trailing_fragment_ignored
      [where P = lp64 and ps = "[stored_deflate [0x61]]" and frag = "[0xAA, 0xBB, 0xCC]"
         and sched = "[0]" and ?header0.0 = "[]" and outputOpens = True]
  have a: "length [0x61 :: byte] \<le> 65535"
    by simp
  have f: "length [0xAA :: byte, 0xBB, 0xCC] < sizeof_uLong lp64"
    by (simp add: sizeof_uLong_lp64)
  have s: "schedule (length [stored_deflate [0x61]]) [0]"
    by (simp add: schedule_def)
  have rec: "\<forall>p\<in>set [stored_deflate [0x61]].
      length p < 256 ^ sizeof_uLong lp64 \<and> length p \<le> max_size lp64 \<and>
      (p = [] \<or> (\<exists>raw. inflate lp64 p = Some raw \<and> length raw \<le> CHUNK_SIZE))"
    using lp64_payload [OF a] CHUNK_SIZE_small(2) by simp
  have "fst (decompressFile lp64 []
       (Some (magic @ framed lp64 [stored_deflate [0x61]] @ [0xAA, 0xBB, 0xCC])) True [0])
     = Returned"
    using inst rec f s by blast
  moreover have "decompressFile lp64 []
       (Some (magic @ framed lp64 [stored_deflate [0x61]] @ [0xAA, 0xBB, 0xCC])) True [0]
     = decompressFile lp64 [] (Some (magic @ framed lp64 [stored_deflate [0x61]])) True [0]"
    using inst rec f by blast
  ultimately show ?thesis
    using f s by simp
qed

end
